theory Spec2Isabelle
  imports Main "HOL-Library.Sublist" "HOL-Library.Char_ord" "HOL-Library.List_Lexorder"
    "HOL-Library.Multiset"
begin

section \<open>Strings as the plugin uses them\<close>

text \<open>
  A Python string is modelled by its UTF-8 encoding, a \<open>string\<close> of bytes. Equality,
  \<open>startswith\<close>, comparison, \<open>split\<close> and \<open>replace\<close> on a one-byte separator, and
  the splitting of a file into lines are the same on the encoding as on the characters.
  \<open>str.lower\<close> depends on the Unicode character tables and is a parameter \<open>lower\<close> of every
  operation that calls it.
\<close>

abbreviation LF :: char where "LF \<equiv> CHR 0x0A"
abbreviation CR :: char where "CR \<equiv> CHR 0x0D"

text \<open>
  The encodings of the characters for which \<open>str.isspace\<close> holds, which are the
  characters \<open>str.strip()\<close> removes: U+0009 to U+000D, U+001C to U+0020, U+0085, U+00A0,
  U+1680, U+2000 to U+200A, U+2028, U+2029, U+202F, U+205F and U+3000.
\<close>

definition whitespace :: "string list" where
  "whitespace =
     [[CHR 0x09], [LF], [CHR 0x0B], [CHR 0x0C], [CR],
      [CHR 0x1C], [CHR 0x1D], [CHR 0x1E], [CHR 0x1F], [CHR 0x20],
      [CHR 0xC2, CHR 0x85], [CHR 0xC2, CHR 0xA0], [CHR 0xE1, CHR 0x9A, CHR 0x80],
      [CHR 0xE2, CHR 0x80, CHR 0x80], [CHR 0xE2, CHR 0x80, CHR 0x81], [CHR 0xE2, CHR 0x80, CHR 0x82],
      [CHR 0xE2, CHR 0x80, CHR 0x83], [CHR 0xE2, CHR 0x80, CHR 0x84], [CHR 0xE2, CHR 0x80, CHR 0x85],
      [CHR 0xE2, CHR 0x80, CHR 0x86], [CHR 0xE2, CHR 0x80, CHR 0x87], [CHR 0xE2, CHR 0x80, CHR 0x88],
      [CHR 0xE2, CHR 0x80, CHR 0x89], [CHR 0xE2, CHR 0x80, CHR 0x8A],
      [CHR 0xE2, CHR 0x80, CHR 0xA8], [CHR 0xE2, CHR 0x80, CHR 0xA9], [CHR 0xE2, CHR 0x80, CHR 0xAF],
      [CHR 0xE2, CHR 0x81, CHR 0x9F], [CHR 0xE3, CHR 0x80, CHR 0x80]]"

text \<open>Removing from the front of \<open>s\<close>, as long as there is one, an encoding listed in \<open>ws\<close>.\<close>

function strip_prefixes :: "string list \<Rightarrow> string \<Rightarrow> string" where
  "strip_prefixes ws s =
     (case find (\<lambda>w. w \<noteq> [] \<and> prefix w s) ws of
        None \<Rightarrow> s
      | Some w \<Rightarrow> strip_prefixes ws (drop (length w) s))"
  by pat_completeness auto
termination
proof (relation "measure (\<lambda>(ws, s). length s)")
  show "wf (measure (\<lambda>(ws, s). length s))" by simp
next
  fix ws :: "string list" and s w :: string
  assume "find (\<lambda>w. w \<noteq> [] \<and> prefix w s) ws = Some w"
  then have "w \<noteq> []" and "prefix w s" by (auto simp: find_Some_iff)
  then have "0 < length w" and "length w \<le> length s" by (auto simp: prefix_def)
  then have "length s - length w < length s" by arith
  then show "((ws, drop (length w) s), (ws, s)) \<in> measure (\<lambda>(ws, s). length s)" by simp
qed

declare strip_prefixes.simps [simp del]

text \<open>\<open>s.strip()\<close>: white space is removed at the front, then at the back.\<close>

definition strip :: "string \<Rightarrow> string" where
  "strip s = rev (strip_prefixes (map rev whitespace) (rev (strip_prefixes whitespace s)))"

text \<open>\<open>s.replace(" ", "-")\<close>\<close>

definition replace_space :: "string \<Rightarrow> string" where
  "replace_space s = map (\<lambda>c. if c = CHR '' '' then CHR ''-'' else c) s"

text \<open>\<open>s.split(sep)\<close> for a one-character separator: always at least one piece.\<close>

fun split_on :: "char \<Rightarrow> string \<Rightarrow> string list" where
  "split_on sep [] = [[]]"
| "split_on sep (c # cs) =
     (if c = sep then [] # split_on sep cs
      else (case split_on sep cs of [] \<Rightarrow> [[c]] | p # ps \<Rightarrow> (c # p) # ps))"

text \<open>\<open>sep.join(xs)\<close>\<close>

fun join :: "string \<Rightarrow> string list \<Rightarrow> string" where
  "join sep [] = []"
| "join sep [x] = x"
| "join sep (x # y # ys) = x @ sep @ join sep (y # ys)"

text \<open>Decimal rendering of a number inside an f-string.\<close>

definition digit_char :: "nat \<Rightarrow> char" where
  "digit_char d = char_of (48 + d)"

fun str_nat :: "nat \<Rightarrow> string" where
  "str_nat n = (if n < 10 then [digit_char n] else str_nat (n div 10) @ [digit_char (n mod 10)])"

declare str_nat.simps [simp del]

definition str_int :: "int \<Rightarrow> string" where
  "str_int i = (if i < 0 then CHR ''-'' # str_nat (nat (- i)) else str_nat (nat i))"

section \<open>Collision-free file names (\<open>cmd_epistle_new\<close>, lines 79 to 87)\<close>

text \<open>
  The loop state is the pair \<open>counter\<close>, \<open>unique_filename\<close> of the source; \<open>ex\<close> is
  \<open>(epistle_dir / name).exists()\<close>. Nothing in the source bounds the loop, so the model
  is a partial function and \<open>None\<close> stands for a loop that never ends.
\<close>

partial_function (option) unique_loop ::
  "(string \<Rightarrow> bool) \<Rightarrow> string \<Rightarrow> string \<Rightarrow> nat \<Rightarrow> string \<Rightarrow> string option" where
  "unique_loop ex persona_slug timestamp counter unique_filename =
     (if ex unique_filename
      then unique_loop ex persona_slug timestamp (counter + 1)
             (persona_slug @ ''_'' @ timestamp @ ''_'' @ str_nat (counter + 1) @ ''.md'')
      else Some unique_filename)"

definition unique_filename :: "(string \<Rightarrow> bool) \<Rightarrow> string \<Rightarrow> string \<Rightarrow> string option" where
  "unique_filename ex persona_slug timestamp =
     unique_loop ex persona_slug timestamp 0 (persona_slug @ ''_'' @ timestamp @ ''.md'')"

text \<open>
  The name the loop holds when its counter is \<open>k\<close>: the base name for \<open>0\<close>, the base
  name with the suffix \<open>_k\<close> before the extension otherwise.
\<close>

definition candidate :: "string \<Rightarrow> string \<Rightarrow> nat \<Rightarrow> string" where
  "candidate persona_slug timestamp k =
     (if k = 0 then persona_slug @ ''_'' @ timestamp @ ''.md''
      else persona_slug @ ''_'' @ timestamp @ ''_'' @ str_nat k @ ''.md'')"

section \<open>Records, the store directory and what a command prints\<close>

text \<open>
  A record is the dictionary built at lines 89 to 100 of \<open>cmd_epistle_new\<close>; every record
  of the model carries all ten keys, so \<open>e.get(k, default)\<close> reads the field \<open>k\<close>.
  \<open>prompted_by\<close> is \<open>None\<close> for JSON \<open>null\<close>.
\<close>

record epistle =
  ep_id :: string
  ep_date :: string
  ep_personas :: "string list"
  ep_topic :: string
  ep_prompted_by :: "string option"
  ep_file :: string
  ep_status :: string
  ep_references :: "string list"
  ep_context :: "string list"
  ep_keywords :: "string list"

text \<open>The lines a command prints on standard error and on standard output.\<close>

datatype msg =
    Need_two_personas
  | Error_loading_registry
  | Error_saving_registry
  | Error_writing_epistle
  | Error_reading_epistle
  | Epistle_not_found string
  | Epistle_file_not_found string

datatype out =
    Out_epistle epistle
  | Out_created string
  | Out_count nat
  | Out_row epistle
  | Out_document string
  | Out_context_added string

text \<open>
  The store directory maps a file name (relative to \<open>_epistle_path()\<close>) to the text of the
  file; a file whose bytes do not decode is a file that fails to be read. What leaves a
  function other than by \<open>return\<close> is an \<open>error\<close>.
\<close>

record world =
  files :: "string \<rightharpoonup> string"
  stderr :: "msg list"
  stdout :: "out list"

datatype error = SystemExit nat | IndexError

text \<open>
  I/O failures come from outside the program and are injected: the test of a file by
  \<open>os.path.exists\<close> may fail, which that function reports as \<open>False\<close>; opening a file
  may fail; iterating over a file may fail when line \<open>k\<close> is fetched; a file opened for
  writing may accept only the first \<open>n\<close> characters written to it before the write fails.
\<close>

datatype read_fault = Read_ok | Read_stat_fails | Read_open_fails | Read_fails_at nat

datatype write_fault = Write_ok | Write_open_fails | Write_fails_after nat

definition registry_path :: string where
  "registry_path = ''registry.ndjson''"

section \<open>Registry store (\<open>_load_registry\<close>, \<open>_save_registry\<close>)\<close>

text \<open>
  Reading a text file: universal newlines turn \<open>CR LF\<close> and a lone \<open>CR\<close> into \<open>LF\<close>, and
  iteration yields the lines with their terminator.
\<close>

fun universal_newlines :: "string \<Rightarrow> string" where
  "universal_newlines [] = []"
| "universal_newlines (c # cs) =
     (if c = CR
      then (case cs of
              [] \<Rightarrow> [LF]
            | d # ds \<Rightarrow> if d = LF then LF # universal_newlines ds else LF # universal_newlines cs)
      else c # universal_newlines cs)"

fun readlines_from :: "string \<Rightarrow> string \<Rightarrow> string list" where
  "readlines_from cur [] = (if cur = [] then [] else [cur])"
| "readlines_from cur (c # cs) =
     (if c = LF then (cur @ [c]) # readlines_from [] cs else readlines_from (cur @ [c]) cs)"

definition readlines :: "string \<Rightarrow> string list" where
  "readlines text = readlines_from [] (universal_newlines text)"

text \<open>
  The body of the \<open>for line in f\<close> loop; \<open>loads\<close> is \<open>json.loads\<close>, \<open>None\<close> when it raises.
  The result is the list \<open>epistles\<close> as the loop leaves it and whether the loop was left by
  an exception.
\<close>

fun load_loop :: "(string \<Rightarrow> 'a option) \<Rightarrow> string list \<Rightarrow> 'a list \<Rightarrow> 'a list \<times> bool" where
  "load_loop loads [] epistles = (epistles, False)"
| "load_loop loads (l # ls) epistles =
     (let line = strip l in
      if line \<noteq> []
      then (case loads line of
              None \<Rightarrow> (epistles, True)
            | Some ep \<Rightarrow> load_loop loads ls (epistles @ [ep]))
      else load_loop loads ls epistles)"

definition load_registry ::
  "(string \<Rightarrow> 'a option) \<Rightarrow> read_fault \<Rightarrow> world \<Rightarrow> (error + 'a list) \<times> world" where
  "load_registry loads fault w =
     (case (if fault = Read_stat_fails then None else files w registry_path) of
        None \<Rightarrow> (Inr [], w)
      | Some text \<Rightarrow>
          (case fault of
             Read_stat_fails \<Rightarrow> (Inr [], w)
           | Read_open_fails \<Rightarrow> (Inr [], w\<lparr>stderr := stderr w @ [Error_loading_registry]\<rparr>)
           | Read_ok \<Rightarrow>
               (let (epistles, raised) = load_loop loads (readlines text) []
                in (Inr epistles,
                    if raised then w\<lparr>stderr := stderr w @ [Error_loading_registry]\<rparr> else w))
           | Read_fails_at k \<Rightarrow>
               (let (epistles, raised) = load_loop loads (take k (readlines text)) []
                in (Inr epistles, w\<lparr>stderr := stderr w @ [Error_loading_registry]\<rparr>))))"

text \<open>
  \<open>with open(path, 'w') as f\<close> followed by writes whose concatenation is \<open>text\<close>: opening
  truncates the file, so after a failed write the file holds what was written before the
  failure. The result says whether an exception was raised.
\<close>

definition write_file :: "write_fault \<Rightarrow> string \<Rightarrow> string \<Rightarrow> world \<Rightarrow> bool \<times> world" where
  "write_file fault path text w =
     (case fault of
        Write_open_fails \<Rightarrow> (True, w)
      | Write_ok \<Rightarrow> (False, w\<lparr>files := (files w)(path \<mapsto> text)\<rparr>)
      | Write_fails_after n \<Rightarrow>
          (if n < length text then (True, w\<lparr>files := (files w)(path \<mapsto> take n text)\<rparr>)
           else (False, w\<lparr>files := (files w)(path \<mapsto> text)\<rparr>)))"

text \<open>What the loop of \<open>_save_registry\<close> writes; \<open>dumps\<close> is \<open>json.dumps\<close>.\<close>

definition registry_text :: "('a \<Rightarrow> string) \<Rightarrow> 'a list \<Rightarrow> string" where
  "registry_text dumps epistles = concat (map (\<lambda>ep. dumps ep @ [LF]) epistles)"

definition save_registry ::
  "('a \<Rightarrow> string) \<Rightarrow> write_fault \<Rightarrow> 'a list \<Rightarrow> world \<Rightarrow> (error + unit) \<times> world" where
  "save_registry dumps fault epistles w =
     (let (raised, w') = write_file fault registry_path (registry_text dumps epistles) w
      in (Inr (), if raised then w'\<lparr>stderr := stderr w' @ [Error_saving_registry]\<rparr> else w'))"

section \<open>Create (\<open>cmd_epistle_new\<close>, \<open>_write_epistle_template\<close>)\<close>

text \<open>
  The arguments as \<open>argparse\<close> delivers them (\<open>--with\<close> and \<open>--topic\<close> are required
  strings, the others are \<open>None\<close> when absent) and the three readings of the clock:
  \<open>time.strftime("%Y%m%dT%H%M%S")\<close>, \<open>int(time.time())\<close> and \<open>time.strftime("%Y-%m-%d")\<close>.
\<close>

record new_args =
  with_personas :: string
  topic :: string
  prompted_by :: "string option"
  args_context :: "string list option"
  args_keywords :: "string option"

record clock =
  stamp :: string
  epoch :: int
  day :: string

record faults =
  doc_write :: write_fault
  reg_read :: read_fault
  reg_write :: write_fault

definition render_context :: "string list \<Rightarrow> string" where
  "render_context context_files =
     (if context_files = []
      then ''[No context documents attached yet. Use `rhizome epistle add-context` to add them.]''
      else join [LF] ((''**Referenced documents:**'' @ [LF]) # map (\<lambda>cf. ''- '' @ cf) context_files))"

text \<open>
  The text of the template. The separator between the personas in the title is the byte
  sequence the source file holds. \<open>epistle['personas'][0]\<close> and \<open>[1]\<close> raise
  \<open>IndexError\<close> on a shorter list.
\<close>

definition template_text :: "string \<Rightarrow> string \<Rightarrow> epistle \<Rightarrow> string" where
  "template_text p0 p1 epistle =
     concat (map (\<lambda>l. l @ [LF])
       [''# Epistle: '' @ join ([CHR '' '', CHR 0xC3, CHR 0xA2, CHR 0xE2, CHR 0x80, CHR 0xA0,
                                CHR 0xE2, CHR 0x80, CHR 0x9D, CHR '' '']) (ep_personas epistle),
        [],
        ''**ID**: '' @ ep_id epistle,
        ''**Date**: '' @ ep_date epistle,
        ''**Topic**: '' @ ep_topic epistle,
        ''**Prompted by**: '' @
           (case ep_prompted_by epistle of
              None \<Rightarrow> ''self-initiated''
            | Some pb \<Rightarrow> if pb = [] then ''self-initiated'' else pb),
        ''**Status**: '' @ ep_status epistle,
        [],
        ''## Context'',
        [],
        render_context (ep_context epistle),
        [],
        ''## Dialog'',
        [],
        ''**'' @ p0 @ '':**'',
        ''[Waiting for first message...]'',
        [],
        ''**'' @ p1 @ '':**'',
        ''[Response...]'',
        [],
        ''## Outcome / Conclusions'',
        [],
        ''[To be filled as conversation develops]'',
        [],
        ''## Related Files & References'',
        [],
        ''- Registry entry: '' @ ep_id epistle,
        ''- Previous epistles: [add links here]'',
        ''- Implementation: [if applicable]'',
        []])"

definition template_content :: "epistle \<Rightarrow> error + string" where
  "template_content epistle =
     (case ep_personas epistle of
        p0 # p1 # _ \<Rightarrow> Inr (template_text p0 p1 epistle)
      | _ \<Rightarrow> Inl IndexError)"

definition write_epistle_template ::
  "write_fault \<Rightarrow> string \<Rightarrow> epistle \<Rightarrow> world \<Rightarrow> (error + unit) \<times> world" where
  "write_epistle_template fault path epistle w =
     (case template_content epistle of
        Inl e \<Rightarrow> (Inl e, w)
      | Inr content \<Rightarrow>
          (let (raised, w') = write_file fault path content w
           in (Inr (), if raised then w'\<lparr>stderr := stderr w' @ [Error_writing_epistle]\<rparr> else w')))"

definition personas_of :: "new_args \<Rightarrow> string list" where
  "personas_of args = (if with_personas args \<noteq> [] then split_on CHR '','' (with_personas args) else [])"

definition persona_slug_of :: "(string \<Rightarrow> string) \<Rightarrow> string list \<Rightarrow> string" where
  "persona_slug_of lower personas = join ''_'' (map (\<lambda>p. replace_space (lower p)) personas)"

text \<open>The dictionary of lines 89 to 100.\<close>

definition new_epistle :: "clock \<Rightarrow> new_args \<Rightarrow> string \<Rightarrow> epistle" where
  "new_epistle ck args filename =
     \<lparr>ep_id = ''epistle-'' @ str_int (epoch ck),
      ep_date = day ck,
      ep_personas = personas_of args,
      ep_topic = (if topic args \<noteq> [] then topic args else ''Untitled''),
      ep_prompted_by = (case prompted_by args of None \<Rightarrow> None | Some pb \<Rightarrow> if pb \<noteq> [] then Some pb else None),
      ep_file = filename,
      ep_status = ''draft'',
      ep_references = [],
      ep_context = (case args_context args of None \<Rightarrow> [] | Some cs \<Rightarrow> cs),
      ep_keywords = (case args_keywords args of
                       None \<Rightarrow> []
                     | Some ks \<Rightarrow> if ks \<noteq> [] then split_on CHR '','' ks else [])\<rparr>"

text \<open>
  \<open>None\<close> is a run whose collision loop never ends; \<open>Inl (SystemExit 1)\<close> is \<open>sys.exit(1)\<close>.
\<close>

definition cmd_epistle_new ::
  "(string \<Rightarrow> string) \<Rightarrow> (epistle \<Rightarrow> string) \<Rightarrow> (string \<Rightarrow> epistle option) \<Rightarrow> faults \<Rightarrow> clock
     \<Rightarrow> new_args \<Rightarrow> world \<Rightarrow> ((error + unit) \<times> world) option" where
  "cmd_epistle_new lower dumps loads ft ck args w =
     (let personas = personas_of args in
      if length personas < 2
      then Some (Inl (SystemExit 1), w\<lparr>stderr := stderr w @ [Need_two_personas]\<rparr>)
      else
        (case unique_filename (\<lambda>f. f \<in> dom (files w)) (persona_slug_of lower personas) (stamp ck) of
           None \<Rightarrow> None
         | Some filename \<Rightarrow>
             (let epistle = new_epistle ck args filename in
              case write_epistle_template (doc_write ft) filename epistle w of
                (Inl e, w1) \<Rightarrow> Some (Inl e, w1)
              | (Inr _, w1) \<Rightarrow>
                  (case load_registry loads (reg_read ft) w1 of
                     (Inl e, w2) \<Rightarrow> Some (Inl e, w2)
                   | (Inr epistles, w2) \<Rightarrow>
                       (case save_registry dumps (reg_write ft) (epistles @ [epistle]) w2 of
                          (Inl e, w3) \<Rightarrow> Some (Inl e, w3)
                        | (Inr _, w3) \<Rightarrow>
                            Some (Inr (), w3\<lparr>stdout := stdout w3 @ [Out_epistle epistle, Out_created filename]\<rparr>))))))"

section \<open>List (\<open>cmd_epistle_list\<close>)\<close>

text \<open>
  \<open>if args.filter:\<close> and \<open>if args.since:\<close> are false for \<open>None\<close> and for the empty string.
  String comparison is lexicographic on character codes.
\<close>

definition list_select ::
  "(string \<Rightarrow> string) \<Rightarrow> string option \<Rightarrow> string option \<Rightarrow> epistle list \<Rightarrow> epistle list" where
  "list_select lower filter_arg since_arg epistles =
     (let epistles1 =
            (case filter_arg of
               None \<Rightarrow> epistles
             | Some f \<Rightarrow>
                 if f \<noteq> [] then [e \<leftarrow> epistles. lower f \<in> set (map lower (ep_personas e))]
                 else epistles)
      in (case since_arg of
            None \<Rightarrow> epistles1
          | Some s \<Rightarrow> if s \<noteq> [] then [e \<leftarrow> epistles1. s \<le> ep_date e] else epistles1))"

text \<open>\<open>sorted(epistles, key=date, reverse=True)\<close>: descending and stable.\<close>

fun insert_desc :: "epistle \<Rightarrow> epistle list \<Rightarrow> epistle list" where
  "insert_desc x [] = [x]"
| "insert_desc x (y # ys) = (if ep_date x < ep_date y then y # insert_desc x ys else x # y # ys)"

definition sorted_desc :: "epistle list \<Rightarrow> epistle list" where
  "sorted_desc epistles = foldr insert_desc epistles []"

definition cmd_epistle_list ::
  "(string \<Rightarrow> string) \<Rightarrow> (string \<Rightarrow> epistle option) \<Rightarrow> read_fault \<Rightarrow> string option
     \<Rightarrow> string option \<Rightarrow> world \<Rightarrow> (error + unit) \<times> world" where
  "cmd_epistle_list lower loads fault filter_arg since_arg w =
     (case load_registry loads fault w of
        (Inl e, w1) \<Rightarrow> (Inl e, w1)
      | (Inr loaded, w1) \<Rightarrow>
          (let epistles = list_select lower filter_arg since_arg loaded
           in (Inr (), w1\<lparr>stdout := stdout w1 @ Out_count (length epistles) # map Out_row (sorted_desc epistles)\<rparr>)))"

section \<open>Show (\<open>cmd_epistle_show\<close>)\<close>

text \<open>The test of line 193 and the loop around it.\<close>

definition show_matches :: "(string \<Rightarrow> string) \<Rightarrow> string \<Rightarrow> epistle \<Rightarrow> bool" where
  "show_matches lower target ep = (lower (ep_id ep) = target \<or> prefix target (lower (ep_file ep)))"

definition show_lookup :: "(string \<Rightarrow> string) \<Rightarrow> string \<Rightarrow> epistle list \<Rightarrow> epistle option" where
  "show_lookup lower target epistles = find (show_matches lower target) epistles"

text \<open>
  Lines 201 to 209: the document of the record found is printed, or the reason why it
  is not. \<open>os.path.exists\<close> answers \<open>False\<close> when its test of the file fails.
\<close>

definition show_file :: "read_fault \<Rightarrow> epistle \<Rightarrow> world \<Rightarrow> world" where
  "show_file doc_fault epistle w =
     (case (if doc_fault = Read_stat_fails then None else files w (ep_file epistle)) of
        Some text \<Rightarrow>
          (if doc_fault = Read_ok then w\<lparr>stdout := stdout w @ [Out_document text]\<rparr>
           else w\<lparr>stderr := stderr w @ [Error_reading_epistle]\<rparr>)
      | None \<Rightarrow> w\<lparr>stderr := stderr w @ [Epistle_file_not_found (ep_file epistle)]\<rparr>)"

definition cmd_epistle_show ::
  "(string \<Rightarrow> string) \<Rightarrow> (string \<Rightarrow> epistle option) \<Rightarrow> read_fault \<Rightarrow> read_fault \<Rightarrow> string \<Rightarrow> world
     \<Rightarrow> (error + unit) \<times> world" where
  "cmd_epistle_show lower loads fault doc_fault epistle_id w =
     (case load_registry loads fault w of
        (Inl e, w1) \<Rightarrow> (Inl e, w1)
      | (Inr epistles, w1) \<Rightarrow>
          (let target = lower epistle_id in
           case show_lookup lower target epistles of
             None \<Rightarrow> (Inl (SystemExit 1), w1\<lparr>stderr := stderr w1 @ [Epistle_not_found epistle_id]\<rparr>)
           | Some epistle \<Rightarrow> (Inr (), show_file doc_fault epistle w1)))"

section \<open>AddContext (\<open>cmd_epistle_add_context\<close>)\<close>

text \<open>The loop of lines 252 to 256 on the \<open>context\<close> list of the record found.\<close>

fun add_context_loop :: "string list \<Rightarrow> string list \<Rightarrow> string list" where
  "add_context_loop [] ctx = ctx"
| "add_context_loop (ctx_file # rest) ctx =
     add_context_loop rest (if ctx_file \<notin> set ctx then ctx @ [ctx_file] else ctx)"

text \<open>
  The record found is an element of the list \<open>epistles\<close>, changed in place: the list saved
  is the loaded one with its first match replaced.
\<close>

fun update_first :: "('a \<Rightarrow> bool) \<Rightarrow> 'a \<Rightarrow> 'a list \<Rightarrow> 'a list" where
  "update_first P y [] = []"
| "update_first P y (x # xs) = (if P x then y # xs else x # update_first P y xs)"

definition cmd_epistle_add_context ::
  "(string \<Rightarrow> string) \<Rightarrow> (epistle \<Rightarrow> string) \<Rightarrow> (string \<Rightarrow> epistle option) \<Rightarrow> read_fault
     \<Rightarrow> write_fault \<Rightarrow> string \<Rightarrow> string list option \<Rightarrow> world \<Rightarrow> (error + unit) \<times> world" where
  "cmd_epistle_add_context lower dumps loads rfault wfault epistle_id context_arg w =
     (case load_registry loads rfault w of
        (Inl e, w1) \<Rightarrow> (Inl e, w1)
      | (Inr epistles, w1) \<Rightarrow>
          (let target = lower epistle_id in
           case find (\<lambda>ep. lower (ep_id ep) = target) epistles of
             None \<Rightarrow> (Inl (SystemExit 1), w1\<lparr>stderr := stderr w1 @ [Epistle_not_found epistle_id]\<rparr>)
           | Some ep \<Rightarrow>
               (let epistle =
                      (case context_arg of
                         None \<Rightarrow> ep
                       | Some paths \<Rightarrow> ep\<lparr>ep_context := add_context_loop paths (ep_context ep)\<rparr>);
                    epistles' = update_first (\<lambda>ep. lower (ep_id ep) = target) epistle epistles
                in case save_registry dumps wfault epistles' w1 of
                     (Inl e, w2) \<Rightarrow> (Inl e, w2)
                   | (Inr _, w2) \<Rightarrow>
                       (Inr (), w2\<lparr>stdout := stdout w2 @ [Out_epistle epistle, Out_context_added (ep_id epistle)]\<rparr>))))"

section \<open>Notions used to state the claims\<close>

text \<open>A string that starts, or ends, with a character \<open>str.strip()\<close> removes.\<close>

definition starts_space :: "string \<Rightarrow> bool" where
  "starts_space s = list_ex (\<lambda>w. prefix w s) whitespace"

definition ends_space :: "string \<Rightarrow> bool" where
  "ends_space s = list_ex (\<lambda>w. suffix w s) whitespace"

text \<open>
  What the claims assume of the JSON library on a record \<open>e\<close>: \<open>json.dumps\<close> yields one
  line (no line terminator inside) that neither starts nor ends with white space, and
  \<open>json.loads\<close> gives \<open>e\<close> back from it.
\<close>

definition json_ok :: "('a \<Rightarrow> string) \<Rightarrow> (string \<Rightarrow> 'a option) \<Rightarrow> 'a \<Rightarrow> bool" where
  "json_ok dumps loads e \<longleftrightarrow>
     dumps e \<noteq> [] \<and> \<not> starts_space (dumps e) \<and> \<not> ends_space (dumps e)
     \<and> LF \<notin> set (dumps e) \<and> CR \<notin> set (dumps e) \<and> loads (dumps e) = Some e"

text \<open>The \<open>file\<close> values of the records a fault-free load returns.\<close>

definition registry_files :: "(string \<Rightarrow> epistle option) \<Rightarrow> world \<Rightarrow> string list" where
  "registry_files loads w =
     (case fst (load_registry loads Read_ok w) of Inl e \<Rightarrow> [] | Inr epistles \<Rightarrow> map ep_file epistles)"

text \<open>
  A sequence of Create invocations, each with its own faults, clock readings and
  arguments, run one after the other on the store.
\<close>

fun create_calls ::
  "(string \<Rightarrow> string) \<Rightarrow> (epistle \<Rightarrow> string) \<Rightarrow> (string \<Rightarrow> epistle option)
     \<Rightarrow> (faults \<times> clock \<times> new_args) list \<Rightarrow> world \<Rightarrow> world option" where
  "create_calls lower dumps loads [] w = Some w"
| "create_calls lower dumps loads ((ft, ck, args) # calls) w =
     (case cmd_epistle_new lower dumps loads ft ck args w of
        None \<Rightarrow> None
      | Some (r, w') \<Rightarrow> create_calls lower dumps loads calls w')"

text \<open>The elements of a list in the order of their first occurrence.\<close>

definition first_seen :: "'a list \<Rightarrow> 'a list" where
  "first_seen xs = rev (remdups (rev xs))"

section \<open>A concrete JSON stand-in and concrete stores\<close>

text \<open>
  What \<open>str.lower\<close> does on text in which every cased letter is an ASCII letter, as in
  the records and identifiers of the concrete runs below.
\<close>

definition ascii_lower_char :: "char \<Rightarrow> char" where
  "ascii_lower_char c =
     (let n = (of_char c :: nat) in if 65 \<le> n \<and> n \<le> 90 then char_of (n + 32) else c)"

definition ascii_lower :: "string \<Rightarrow> string" where
  "ascii_lower s = map ascii_lower_char s"

text \<open>
  An instance of the two library parameters that meets \<open>json_ok\<close> on every record: a
  record is written between braces as its ten fields, each a list of strings in
  hexadecimal, every string closed by a comma and every field by a semicolon.
\<close>

definition hex_digit :: "nat \<Rightarrow> char" where
  "hex_digit d = (if d < 10 then char_of (48 + d) else char_of (87 + d))"

definition hex_value :: "char \<Rightarrow> nat" where
  "hex_value c = (let n = (of_char c :: nat) in if n < 58 then n - 48 else n - 87)"

definition enc_string :: "string \<Rightarrow> string" where
  "enc_string s = concat (map (\<lambda>c. [hex_digit (of_char c div 16), hex_digit (of_char c mod 16)]) s)"

fun dec_string :: "string \<Rightarrow> string" where
  "dec_string (a # b # r) = char_of (16 * hex_value a + hex_value b) # dec_string r"
| "dec_string _ = []"

definition enc_strings :: "string list \<Rightarrow> string" where
  "enc_strings xs = concat (map (\<lambda>s. enc_string s @ '','') xs)"

definition dec_strings :: "string \<Rightarrow> string list" where
  "dec_strings t = map dec_string (butlast (split_on CHR '','' t))"

definition record_fields :: "epistle \<Rightarrow> string list list" where
  "record_fields e =
     [[ep_id e], [ep_date e], ep_personas e, [ep_topic e],
      (case ep_prompted_by e of None \<Rightarrow> [] | Some pb \<Rightarrow> [pb]),
      [ep_file e], [ep_status e], ep_references e, ep_context e, ep_keywords e]"

definition unfields :: "string list list \<Rightarrow> epistle option" where
  "unfields xss =
     (if length xss = 10 \<and> length (xss ! 0) = 1 \<and> length (xss ! 1) = 1 \<and> length (xss ! 3) = 1
         \<and> length (xss ! 4) \<le> 1 \<and> length (xss ! 5) = 1 \<and> length (xss ! 6) = 1
      then Some \<lparr>ep_id = hd (xss ! 0), ep_date = hd (xss ! 1), ep_personas = xss ! 2,
                 ep_topic = hd (xss ! 3),
                 ep_prompted_by = (case xss ! 4 of [] \<Rightarrow> None | pb # _ \<Rightarrow> Some pb),
                 ep_file = hd (xss ! 5), ep_status = hd (xss ! 6), ep_references = xss ! 7,
                 ep_context = xss ! 8, ep_keywords = xss ! 9\<rparr>
      else None)"

definition sample_dumps :: "epistle \<Rightarrow> string" where
  "sample_dumps e = ''{'' @ concat (map (\<lambda>xs. enc_strings xs @ '';'') (record_fields e)) @ ''}''"

definition sample_loads :: "string \<Rightarrow> epistle option" where
  "sample_loads s =
     (case s of
        [] \<Rightarrow> None
      | c # r \<Rightarrow>
          if c = CHR ''{'' \<and> r \<noteq> [] \<and> last r = CHR ''}''
          then unfields (map dec_strings (butlast (split_on CHR '';'' (butlast r))))
          else None)"

text \<open>What \<open>sample_dumps\<close> writes between the braces.\<close>

definition sample_body :: "epistle \<Rightarrow> string" where
  "sample_body e = concat (map (\<lambda>xs. enc_strings xs @ '';'') (record_fields e))"

text \<open>Two records and stores for concrete runs.\<close>

definition example_a :: epistle where
  "example_a =
     \<lparr>ep_id = ''epistle-1700000000'', ep_date = ''2023-11-14'',
      ep_personas = [''Alice'', ''Bob''], ep_topic = ''X'', ep_prompted_by = None,
      ep_file = ''alice_bob_20231114T221320.md'', ep_status = ''draft'',
      ep_references = [], ep_context = [], ep_keywords = []\<rparr>"

definition example_b :: epistle where
  "example_b =
     \<lparr>ep_id = ''epistle-1700000005'', ep_date = ''2023-11-14'',
      ep_personas = [''Carol'', ''Dave''], ep_topic = ''Y'', ep_prompted_by = Some ''fp-123'',
      ep_file = ''carol_dave_20231114T221325.md'', ep_status = ''draft'',
      ep_references = [], ep_context = [''notes.md''], ep_keywords = [''k'']\<rparr>"

definition empty_store :: world where
  "empty_store = \<lparr>files = Map.empty, stderr = [], stdout = []\<rparr>"

text \<open>A store whose backing file holds the given records.\<close>

definition store_of :: "epistle list \<Rightarrow> world" where
  "store_of epistles =
     \<lparr>files = [registry_path \<mapsto> registry_text sample_dumps epistles], stderr = [], stdout = []\<rparr>"

text \<open>
  A backing file with a line holding only a no-break space (U+00A0) and a malformed line
  between two records.
\<close>

definition broken_text :: string where
  "broken_text =
     sample_dumps example_a @ [LF] @ [CHR 0xC2, CHR 0xA0, LF] @ ''not json'' @ [LF]
       @ sample_dumps example_b @ [LF]"

definition broken_store :: world where
  "broken_store = \<lparr>files = [registry_path \<mapsto> broken_text], stderr = [], stdout = []\<rparr>"

text \<open>
  A record whose first persona is spelt like an identifier, and a record created with
  \<open>--context a.md --context a.md\<close>.
\<close>

definition example_c :: epistle where
  "example_c =
     \<lparr>ep_id = ''epistle-1700000000'', ep_date = ''2023-11-14'',
      ep_personas = [''Epistle-1700000005'', ''Bob''], ep_topic = ''Z'', ep_prompted_by = None,
      ep_file = ''epistle-1700000005_bob_20231114T221320.md'', ep_status = ''draft'',
      ep_references = [], ep_context = [], ep_keywords = []\<rparr>"

definition example_d :: epistle where
  "example_d =
     \<lparr>ep_id = ''epistle-1700000009'', ep_date = ''2023-11-14'',
      ep_personas = [''Alice'', ''Bob''], ep_topic = ''W'', ep_prompted_by = None,
      ep_file = ''alice_bob_20231114T221329.md'', ep_status = ''draft'',
      ep_references = [], ep_context = [''a.md'', ''a.md''], ep_keywords = []\<rparr>"

text \<open>
  The record AddContext is claimed to produce: the paths not yet in \<open>context\<close> appended in
  the order of their first occurrence in the argument list.
\<close>

definition with_added_context :: "string list \<Rightarrow> epistle \<Rightarrow> epistle" where
  "with_added_context paths ep =
     ep\<lparr>ep_context := ep_context ep @ [p \<leftarrow> first_seen paths. p \<notin> set (ep_context ep)]\<rparr>"

text \<open>
  What a load reads from the content of the backing file (\<open>None\<close> when the file is
  absent): the records it returns and whether it prints its error message.
\<close>

definition load_outcome ::
  "(string \<Rightarrow> 'a option) \<Rightarrow> read_fault \<Rightarrow> string option \<Rightarrow> 'a list \<times> bool" where
  "load_outcome loads fault content =
     (case content of
        None \<Rightarrow> ([], False)
      | Some text \<Rightarrow>
          (case fault of
             Read_stat_fails \<Rightarrow> ([], False)
           | Read_open_fails \<Rightarrow> ([], True)
           | Read_ok \<Rightarrow> load_loop loads (readlines text) []
           | Read_fails_at k \<Rightarrow> (fst (load_loop loads (take k (readlines text)) []), True)))"

text \<open>
  A store is consistent when its directory is finite and the \<open>file\<close> values of its
  registry records are pairwise distinct names of files present in the directory.
\<close>

definition store_consistent :: "(string \<Rightarrow> epistle option) \<Rightarrow> world \<Rightarrow> bool" where
  "store_consistent loads w \<longleftrightarrow>
     finite (dom (files w)) \<and> distinct (registry_files loads w)
     \<and> set (registry_files loads w) \<subseteq> dom (files w)"

text \<open>
  One invocation \<open>new --with Alice,Bob --topic X\<close> at 2023-11-14 22:13:20, without faults
  and with a satellite document that cannot be opened for writing.
\<close>

definition example_clock :: clock where
  "example_clock = \<lparr>stamp = ''20231114T221320'', epoch = 1700000000, day = ''2023-11-14''\<rparr>"

definition example_args :: new_args where
  "example_args =
     \<lparr>with_personas = ''Alice,Bob'', topic = ''X'', prompted_by = None,
      args_context = None, args_keywords = None\<rparr>"

definition no_faults :: faults where
  "no_faults = \<lparr>doc_write = Write_ok, reg_read = Read_ok, reg_write = Write_ok\<rparr>"

definition doc_fails :: faults where
  "doc_fails = \<lparr>doc_write = Write_open_fails, reg_read = Read_ok, reg_write = Write_ok\<rparr>"

section \<open>Decimal numerals are injective\<close>

lemma str_nat_nonempty: "str_nat n \<noteq> []"
  by (subst str_nat.simps) simp

lemma digit_char_inj: "a < 10 \<Longrightarrow> b < 10 \<Longrightarrow> digit_char a = digit_char b \<Longrightarrow> a = b"
proof -
  assume a: "a < 10" and b: "b < 10" and e: "digit_char a = digit_char b"
  from e have "(of_char (digit_char a) :: nat) = of_char (digit_char b)" by simp
  with a b show "a = b" by (simp add: digit_char_def)
qed

lemma str_nat_inj: "str_nat n = str_nat m \<Longrightarrow> n = m"
proof (induction n arbitrary: m rule: str_nat.induct)
  case (1 n)
  show ?case
  proof (cases "n < 10")
    case small: True
    show ?thesis
    proof (cases "m < 10")
      case True
      with small "1.prems" show ?thesis
        by (simp add: str_nat.simps [of n] str_nat.simps [of m] digit_char_inj)
    next
      case False
      with small "1.prems" str_nat_nonempty [of "m div 10"] show ?thesis
        by (simp add: str_nat.simps [of n] str_nat.simps [of m])
    qed
  next
    case big: False
    show ?thesis
    proof (cases "m < 10")
      case True
      with big "1.prems" str_nat_nonempty [of "n div 10"] show ?thesis
        by (simp add: str_nat.simps [of n] str_nat.simps [of m])
    next
      case False
      with big "1.prems" have e: "str_nat (n div 10) = str_nat (m div 10)"
        and d: "digit_char (n mod 10) = digit_char (m mod 10)"
        by (simp_all add: str_nat.simps [of n] str_nat.simps [of m])
      from "1.IH" [OF big e] have q: "n div 10 = m div 10" .
      from d have r: "n mod 10 = m mod 10" by (simp add: digit_char_inj)
      from q r show ?thesis by (metis div_mult_mod_eq)
    qed
  qed
qed

lemma candidate_inj: "candidate s t j = candidate s t k \<Longrightarrow> j = k"
  by (auto simp: candidate_def dest: str_nat_inj split: if_splits)

lemma inj_candidate: "inj (candidate s t)"
  by (rule injI) (rule candidate_inj)

lemma candidate_Suc:
  "candidate s t (Suc k) = s @ ''_'' @ t @ ''_'' @ str_nat (Suc k) @ ''.md''"
  by (simp add: candidate_def)

lemma unique_loop_steps:
  "\<forall>j<d. ex (candidate s t (c + j)) \<Longrightarrow> \<not> ex (candidate s t (c + d)) \<Longrightarrow>
   unique_loop ex s t c (candidate s t c) = Some (candidate s t (c + d))"
proof (induction d arbitrary: c)
  case 0
  then show ?case by (subst unique_loop.simps) simp
next
  case (Suc d)
  from Suc.prems(1) have here: "ex (candidate s t c)" by (metis add.right_neutral zero_less_Suc)
  have a: "\<forall>j<d. ex (candidate s t (Suc c + j))"
  proof (intro allI impI)
    fix j assume "j < d"
    then have "Suc j < Suc d" by simp
    with Suc.prems(1) have "ex (candidate s t (c + Suc j))" by blast
    then show "ex (candidate s t (Suc c + j))" by simp
  qed
  from Suc.prems(2) have b: "\<not> ex (candidate s t (Suc c + d))" by simp
  from Suc.IH [OF a b] have "unique_loop ex s t (Suc c) (candidate s t (Suc c)) = Some (candidate s t (Suc c + d))" .
  with here show ?case
    by (subst unique_loop.simps) (simp add: candidate_Suc)
qed

lemma free_candidate: "finite E \<Longrightarrow> \<exists>k. candidate s t k \<notin> E"
proof (rule ccontr)
  assume fin: "finite E" and "\<not> (\<exists>k. candidate s t k \<notin> E)"
  then have "range (candidate s t) \<subseteq> E" by auto
  with fin have "finite (range (candidate s t))" by (rule rev_finite_subset)
  then have "finite (UNIV :: nat set)" using inj_candidate [of s t] by (rule finite_imageD)
  then show False by simp
qed

section \<open>Reading back what was saved\<close>


lemma universal_newlines_id: "CR \<notin> set s \<Longrightarrow> universal_newlines s = s"
  by (induction s) auto

lemma readlines_from_line:
  "LF \<notin> set s \<Longrightarrow> readlines_from cur (s @ LF # rest) = (cur @ s @ [LF]) # readlines_from [] rest"
  by (induction s arbitrary: cur) auto

lemma readlines_from_registry_text:
  "\<forall>e\<in>set X. LF \<notin> set (dumps e) \<Longrightarrow>
   readlines_from [] (registry_text dumps X) = map (\<lambda>e. dumps e @ [LF]) X"
  by (induction X) (simp_all add: registry_text_def readlines_from_line)

lemma CR_notin_registry_text:
  "\<forall>e\<in>set X. CR \<notin> set (dumps e) \<Longrightarrow> CR \<notin> set (registry_text dumps X)"
  by (induction X) (simp_all add: registry_text_def)

lemma readlines_registry_text:
  "\<forall>e\<in>set X. json_ok dumps loads e \<Longrightarrow>
   readlines (registry_text dumps X) = map (\<lambda>e. dumps e @ [LF]) X"
  by (simp add: readlines_def universal_newlines_id CR_notin_registry_text
      readlines_from_registry_text json_ok_def)

lemma strip_prefixes_none:
  assumes "\<forall>w\<in>set ws. w \<noteq> [] \<longrightarrow> \<not> prefix w s"
  shows "strip_prefixes ws s = s"
proof -
  from assms have "find (\<lambda>w. w \<noteq> [] \<and> prefix w s) ws = None"
    by (auto simp: find_None_iff)
  then show ?thesis by (subst strip_prefixes.simps) simp
qed

lemma whitespace_nonempty: "\<forall>w\<in>set whitespace. w \<noteq> []"
  by (simp add: whitespace_def)

lemma whitespace_last_LF: "\<forall>w\<in>set whitespace. last w = LF \<longrightarrow> w = [LF]"
  by (simp add: whitespace_def)

lemma LF_whitespace: "[LF] \<in> set whitespace"
  by (simp add: whitespace_def)


lemma no_prefix_line:
  assumes "w \<in> set whitespace" "s \<noteq> []" "\<not> starts_space s"
  shows "\<not> prefix w (s @ [LF])"
proof
  assume "prefix w (s @ [LF])"
  then have "w = s @ [LF] \<or> prefix w s" by (simp only: prefix_snoc)
  then show False
  proof
    assume e: "w = s @ [LF]"
    then have "last w = LF" by simp
    with assms(1) whitespace_last_LF have "w = [LF]" by blast
    with e assms(2) show False by simp
  next
    assume "prefix w s"
    with assms(1) have "starts_space s" unfolding starts_space_def list_ex_iff by blast
    with assms(3) show False by simp
  qed
qed

lemma lstrip_line:
  assumes "s \<noteq> []" "\<not> starts_space s"
  shows "strip_prefixes whitespace (s @ [LF]) = s @ [LF]"
proof (rule strip_prefixes_none, intro ballI impI)
  fix w assume "w \<in> set whitespace"
  then show "\<not> prefix w (s @ [LF])" using assms by (rule no_prefix_line)
qed

lemma find_holds: "find P xs = Some x \<Longrightarrow> P x"
  by (induction xs) (auto split: if_splits)

lemma find_in_set: "find P xs = Some x \<Longrightarrow> x \<in> set xs"
  by (induction xs) (auto split: if_splits)

lemma find_LF:
  "find (\<lambda>w. w \<noteq> [] \<and> prefix w (LF # t)) (map rev whitespace) = Some [LF]"
proof -
  let ?P = "\<lambda>w. w \<noteq> [] \<and> prefix w (LF # t)"
  have p: "?P [LF]" by simp
  from LF_whitespace have "rev [LF] \<in> rev ` set whitespace" by (rule imageI)
  then have m: "[LF] \<in> set (map rev whitespace)" by simp
  have "find ?P (map rev whitespace) \<noteq> None"
  proof
    assume "find ?P (map rev whitespace) = None"
    then have "\<not> (\<exists>x. x \<in> set (map rev whitespace) \<and> ?P x)" by (rule find_None_iff [THEN iffD1])
    with m p show False by blast
  qed
  then obtain v where f: "find ?P (map rev whitespace) = Some v" by blast
  from f have pv: "?P v" by (rule find_holds)
  from f have mv: "v \<in> set (map rev whitespace)" by (rule find_in_set)
  from mv have "v \<in> rev ` set whitespace" by simp
  then obtain w where w: "w \<in> set whitespace" and vw: "v = rev w" by blast
  from pv obtain c cs where vc: "v = c # cs" by (cases v) blast+
  with pv have "c = LF" by simp
  with vc vw have "last w = LF" by (metis hd_rev list.sel(1) rev_rev_ident rev.simps(1) list.distinct(1))
  with w whitespace_last_LF have "w = [LF]" by blast
  with vw have "v = [LF]" by simp
  with f show ?thesis by simp
qed

lemma rstrip_none:
  assumes "\<not> ends_space s"
  shows "strip_prefixes (map rev whitespace) (rev s) = rev s"
proof (rule strip_prefixes_none, intro ballI impI)
  fix u assume "u \<in> set (map rev whitespace)"
  then have "u \<in> rev ` set whitespace" by simp
  then obtain x where x: "x \<in> set whitespace" and ux: "u = rev x" by blast
  show "\<not> prefix u (rev s)"
  proof
    assume "prefix u (rev s)"
    with ux have "suffix x s" by (simp add: suffix_to_prefix)
    with x have "ends_space s" unfolding ends_space_def list_ex_iff by blast
    with assms show False by simp
  qed
qed

lemma strip_line:
  assumes "s \<noteq> []" "\<not> starts_space s" "\<not> ends_space s"
  shows "strip (s @ [LF]) = s"
proof -
  have "strip_prefixes (map rev whitespace) (LF # rev s) = strip_prefixes (map rev whitespace) (rev s)"
    by (subst strip_prefixes.simps) (simp add: find_LF)
  also have "\<dots> = rev s" using assms(3) by (rule rstrip_none)
  finally have "strip_prefixes (map rev whitespace) (rev (s @ [LF])) = rev s" by simp
  then show ?thesis
    unfolding strip_def lstrip_line [OF assms(1,2)] by simp
qed

lemma not_starts_space:
  assumes "\<forall>w\<in>set whitespace. hd w \<noteq> c"
  shows "\<not> starts_space (c # t)"
proof
  assume "starts_space (c # t)"
  then obtain w where w: "w \<in> set whitespace" and p: "prefix w (c # t)"
    unfolding starts_space_def list_ex_iff by blast
  from w whitespace_nonempty have "w \<noteq> []" by blast
  with p have "hd w = c" by (cases w) simp_all
  with w assms show False by blast
qed

lemma not_ends_space:
  assumes "\<forall>w\<in>set whitespace. last w \<noteq> c"
  shows "\<not> ends_space (t @ [c])"
proof
  assume "ends_space (t @ [c])"
  then obtain w where w: "w \<in> set whitespace" and p: "suffix w (t @ [c])"
    unfolding ends_space_def list_ex_iff by blast
  from w whitespace_nonempty have n: "w \<noteq> []" by blast
  from p obtain zs where "t @ [c] = zs @ w" unfolding suffix_def by blast
  then have "last (t @ [c]) = last (zs @ w)" by simp
  with n have "last w = c" by simp
  with w assms show False by blast
qed

lemma load_loop_lines:
  "\<forall>e\<in>set X. json_ok dumps loads e \<Longrightarrow>
   load_loop loads (map (\<lambda>e. dumps e @ [LF]) X) acc = (acc @ X, False)"
proof (induction X arbitrary: acc)
  case Nil
  then show ?case by simp
next
  case (Cons e X)
  from Cons.prems have ok: "json_ok dumps loads e" by simp
  then have s: "strip (dumps e @ [LF]) = dumps e"
    by (intro strip_line) (simp_all add: json_ok_def)
  from ok have l: "loads (dumps e) = Some e" and n: "dumps e \<noteq> []" by (simp_all add: json_ok_def)
  from Cons.prems have "\<forall>e\<in>set X. json_ok dumps loads e" by simp
  from Cons.IH [OF this] show ?case by (simp add: s l n)
qed

lemma load_registry_text:
  "\<forall>e\<in>set X. json_ok dumps loads e \<Longrightarrow> files w registry_path = Some (registry_text dumps X) \<Longrightarrow>
   load_registry loads Read_ok w = (Inr X, w)"
  by (simp add: load_registry_def readlines_registry_text load_loop_lines)

section \<open>The JSON stand-in meets the assumptions\<close>

lemma split_on_nonempty: "split_on c s \<noteq> []"
  by (induction s) (auto split: list.splits)

lemma split_on_piece:
  "c \<notin> set p \<Longrightarrow> split_on c (p @ c # rest) = p # split_on c rest"
  by (induction p) (auto split: list.splits)

lemma split_on_concat:
  "\<forall>x\<in>set xs. c \<notin> set (f x) \<Longrightarrow>
   split_on c (concat (map (\<lambda>x. f x @ [c]) xs)) = map f xs @ [[]]"
  by (induction xs) (simp_all add: split_on_piece)

lemma of_char_lt_256: "(of_char c :: nat) < 256"
proof -
  have "(of_char c :: nat) mod 256 < 256" by (rule mod_less_divisor) simp
  then show ?thesis by simp
qed

lemma of_char_hi: "(of_char c :: nat) div 16 < 16"
  using of_char_lt_256 [of c] by arith

lemma hex_value_digit: "d < 16 \<Longrightarrow> hex_value (hex_digit d) = d"
  by (auto simp: hex_value_def hex_digit_def Let_def)

lemma dec_enc_string: "dec_string (enc_string s) = s"
proof (induction s)
  case Nil
  then show ?case by (simp add: enc_string_def)
next
  case (Cons c s)
  have d: "(of_char c :: nat) div 16 < 16" by (rule of_char_hi)
  have m: "(of_char c :: nat) mod 16 < 16" by simp
  have "char_of (16 * ((of_char c :: nat) div 16) + of_char c mod 16) = c" by simp
  with Cons show ?case
    by (simp add: enc_string_def hex_value_digit [OF d] hex_value_digit [OF m])
qed

lemma hex_digit_plain: "d < 16 \<Longrightarrow> hex_digit d \<notin> {CHR '','', CHR '';'', LF, CR, CHR ''}''}"
proof -
  assume "d < 16"
  then have "(of_char (hex_digit d) :: nat) \<in> {48..<58} \<union> {97..<103}"
    by (auto simp: hex_digit_def)
  then show ?thesis by auto
qed

lemma enc_string_plain: "c \<in> {CHR '','', CHR '';'', LF, CR, CHR ''}''} \<Longrightarrow> c \<notin> set (enc_string s)"
proof (induction s)
  case Nil
  then show ?case by (simp add: enc_string_def)
next
  case (Cons a s)
  have d: "(of_char a :: nat) div 16 < 16" by (rule of_char_hi)
  have m: "(of_char a :: nat) mod 16 < 16" by simp
  from Cons hex_digit_plain [OF d] hex_digit_plain [OF m] show ?case
    by (auto simp: enc_string_def)
qed

lemma dec_enc_strings: "dec_strings (enc_strings xs) = xs"
proof -
  have "\<forall>x\<in>set xs. CHR '','' \<notin> set (enc_string x)" by (simp add: enc_string_plain)
  then have "split_on CHR '','' (concat (map (\<lambda>x. enc_string x @ [CHR '','']) xs)) = map enc_string xs @ [[]]"
    by (rule split_on_concat)
  then show ?thesis
    by (simp add: dec_strings_def enc_strings_def dec_enc_string o_def)
qed

lemma enc_strings_plain: "c \<in> {CHR '';'', LF, CR, CHR ''}''} \<Longrightarrow> c \<notin> set (enc_strings xs)"
  using enc_string_plain [of c] by (auto simp: enc_strings_def)


lemma sample_body_plain: "c \<in> {LF, CR, CHR ''}''} \<Longrightarrow> c \<notin> set (sample_body e)"
  using enc_strings_plain [of c] by (auto simp: sample_body_def)

lemma decode_sample_body: "map dec_strings (butlast (split_on CHR '';'' (sample_body e))) = record_fields e"
proof -
  have "\<forall>x\<in>set (record_fields e). CHR '';'' \<notin> set (enc_strings x)" by (simp add: enc_strings_plain)
  then have "split_on CHR '';'' (concat (map (\<lambda>x. enc_strings x @ [CHR '';'']) (record_fields e)))
      = map enc_strings (record_fields e) @ [[]]"
    by (rule split_on_concat)
  then show ?thesis by (simp add: sample_body_def dec_enc_strings o_def)
qed

lemma unfields_fields: "unfields (record_fields e) = Some e"
  by (cases "ep_prompted_by e") (simp_all add: unfields_def record_fields_def)

lemma sample_dumps_unfold: "sample_dumps e = CHR ''{'' # sample_body e @ ''}''"
  by (simp add: sample_dumps_def sample_body_def)

lemma sample_json_ok: "json_ok sample_dumps sample_loads e"
proof -
  have "sample_loads (sample_dumps e) = Some e"
    by (simp add: sample_dumps_unfold sample_loads_def decode_sample_body unfields_fields)
  moreover have "LF \<notin> set (sample_dumps e)" "CR \<notin> set (sample_dumps e)"
    by (simp_all add: sample_dumps_unfold sample_body_plain)
  moreover have "\<not> starts_space (sample_dumps e)"
    unfolding sample_dumps_unfold by (rule not_starts_space) (simp add: whitespace_def)
  moreover have "\<not> ends_space (sample_dumps e)"
  proof -
    have "\<not> ends_space ((CHR ''{'' # sample_body e) @ [CHR ''}''])"
      by (rule not_ends_space) (simp add: whitespace_def)
    then show ?thesis by (simp add: sample_dumps_unfold)
  qed
  ultimately show ?thesis by (simp add: json_ok_def sample_dumps_unfold)
qed

section \<open>Loading a file with a malformed line\<close>

lemma load_loop_malformed:
  "list_all2 (\<lambda>l r. loads (strip l) = Some r) [l \<leftarrow> pre. strip l \<noteq> []] recs \<Longrightarrow>
   strip bad \<noteq> [] \<Longrightarrow> loads (strip bad) = None \<Longrightarrow>
   load_loop loads (pre @ bad # post) acc = (acc @ recs, True)"
proof (induction pre arbitrary: acc recs)
  case Nil
  then show ?case by simp
next
  case (Cons l pre)
  show ?case
  proof (cases "strip l = []")
    case True
    with Cons.prems have "list_all2 (\<lambda>l r. loads (strip l) = Some r) [l \<leftarrow> pre. strip l \<noteq> []] recs"
      by simp
    from Cons.IH [OF this Cons.prems(2,3)] True show ?thesis by simp
  next
    case False
    with Cons.prems(1) obtain r rs where recs: "recs = r # rs" and r: "loads (strip l) = Some r"
      and rs: "list_all2 (\<lambda>l r. loads (strip l) = Some r) [l \<leftarrow> pre. strip l \<noteq> []] rs"
      by (auto simp: list_all2_Cons1)
    from Cons.IH [OF rs Cons.prems(2,3)] False r recs show ?thesis by simp
  qed
qed

lemma sample_dumps_no_LF: "LF \<notin> set (sample_dumps e)"
  using sample_json_ok [of e] by (simp add: json_ok_def)

lemma sample_dumps_no_CR: "CR \<notin> set (sample_dumps e)"
  using sample_json_ok [of e] by (simp add: json_ok_def)

lemma strip_sample_line: "strip (sample_dumps e @ [LF]) = sample_dumps e"
  using sample_json_ok [of e] by (intro strip_line) (simp_all add: json_ok_def)

lemma readlines_broken_text:
  "readlines broken_text
     = [sample_dumps example_a @ [LF], [CHR 0xC2, CHR 0xA0, LF]]
         @ (''not json'' @ [LF]) # [sample_dumps example_b @ [LF]]"
proof -
  have "CR \<notin> set broken_text"
    by (simp add: broken_text_def sample_dumps_no_CR)
  then have "readlines broken_text = readlines_from [] broken_text"
    by (simp add: readlines_def universal_newlines_id)
  also have "\<dots> = (sample_dumps example_a @ [LF])
      # readlines_from [] ([CHR 0xC2, CHR 0xA0, LF] @ ''not json'' @ [LF] @ sample_dumps example_b @ [LF])"
    using readlines_from_line [OF sample_dumps_no_LF, of "[]" example_a]
    by (simp add: broken_text_def)
  also have "readlines_from [] ([CHR 0xC2, CHR 0xA0, LF] @ ''not json'' @ [LF] @ sample_dumps example_b @ [LF])
      = [CHR 0xC2, CHR 0xA0, LF] # (''not json'' @ [LF]) # readlines_from [] (sample_dumps example_b @ [LF])"
    by simp
  also have "readlines_from [] (sample_dumps example_b @ [LF]) = [sample_dumps example_b @ [LF]]"
    using readlines_from_line [OF sample_dumps_no_LF, of "[]" example_b "[]"] by simp
  finally show ?thesis by simp
qed

section \<open>Lookups\<close>

lemma load_store_of: "load_registry sample_loads Read_ok (store_of X) = (Inr X, store_of X)"
  by (rule load_registry_text [where dumps = sample_dumps]) (simp_all add: sample_json_ok store_of_def)

lemma find_first_match:
  "find P xs = Some x \<longleftrightarrow> (\<exists>pre post. xs = pre @ x # post \<and> P x \<and> (\<forall>y\<in>set pre. \<not> P y))"
proof (induction xs)
  case Nil
  then show ?case by simp
next
  case (Cons a xs)
  show ?case
  proof (cases "P a")
    case True
    have "(\<exists>pre post. a # xs = pre @ x # post \<and> P x \<and> (\<forall>y\<in>set pre. \<not> P y)) \<longleftrightarrow> a = x"
    proof
      assume "\<exists>pre post. a # xs = pre @ x # post \<and> P x \<and> (\<forall>y\<in>set pre. \<not> P y)"
      then obtain pre post where e: "a # xs = pre @ x # post" and n: "\<forall>y\<in>set pre. \<not> P y" by blast
      with True show "a = x" by (cases pre) auto
    next
      assume "a = x"
      with True have "a # xs = [] @ x # xs \<and> P x \<and> (\<forall>y\<in>set []. \<not> P y)" by simp
      then show "\<exists>pre post. a # xs = pre @ x # post \<and> P x \<and> (\<forall>y\<in>set pre. \<not> P y)" by blast
    qed
    with True show ?thesis by simp
  next
    case False
    have "(\<exists>pre post. a # xs = pre @ x # post \<and> P x \<and> (\<forall>y\<in>set pre. \<not> P y))
        \<longleftrightarrow> (\<exists>pre post. xs = pre @ x # post \<and> P x \<and> (\<forall>y\<in>set pre. \<not> P y))"
    proof
      assume "\<exists>pre post. a # xs = pre @ x # post \<and> P x \<and> (\<forall>y\<in>set pre. \<not> P y)"
      then obtain pre post where e: "a # xs = pre @ x # post" and p: "P x" and n: "\<forall>y\<in>set pre. \<not> P y"
        by blast
      from e p False obtain pre' where "pre = a # pre'" by (cases pre) auto
      with e n p have "xs = pre' @ x # post \<and> P x \<and> (\<forall>y\<in>set pre'. \<not> P y)" by simp
      then show "\<exists>pre post. xs = pre @ x # post \<and> P x \<and> (\<forall>y\<in>set pre. \<not> P y)" by blast
    next
      assume "\<exists>pre post. xs = pre @ x # post \<and> P x \<and> (\<forall>y\<in>set pre. \<not> P y)"
      then obtain pre post where "xs = pre @ x # post" "P x" "\<forall>y\<in>set pre. \<not> P y" by blast
      with False have "a # xs = (a # pre) @ x # post \<and> P x \<and> (\<forall>y\<in>set (a # pre). \<not> P y)" by simp
      then show "\<exists>pre post. a # xs = pre @ x # post \<and> P x \<and> (\<forall>y\<in>set pre. \<not> P y)" by blast
    qed
    with False Cons.IH show ?thesis by simp
  qed
qed

section \<open>Selecting and sorting for List\<close>

lemma mset_insert_desc: "mset (insert_desc x ys) = add_mset x (mset ys)"
  by (induction ys) simp_all

lemma mset_sorted_desc: "mset (sorted_desc xs) = mset xs"
  by (induction xs) (simp_all add: sorted_desc_def mset_insert_desc)

lemma list_select_eq:
  "list_select lower filter_arg since_arg epistles
     = [e \<leftarrow> epistles.
          (\<forall>p. filter_arg = Some p \<and> p \<noteq> [] \<longrightarrow> (\<exists>q\<in>set (ep_personas e). lower q = lower p))
          \<and> (\<forall>d. since_arg = Some d \<longrightarrow> d \<le> ep_date e)]"
proof -
  have p: "(lower p \<in> lower ` set (ep_personas e)) = (\<exists>q\<in>set (ep_personas e). lower q = lower p)"
    for p and e :: epistle
    by (metis imageE image_eqI)
  show ?thesis
    by (cases filter_arg; cases since_arg) (auto simp: list_select_def p intro!: filter_cong)
qed

section \<open>The de-duplicating loop of AddContext\<close>

lemma remdups_snoc: "remdups (xs @ [p]) = [x \<leftarrow> remdups xs. x \<noteq> p] @ [p]"
  by (induction xs) auto

lemma first_seen_Cons: "first_seen (p # ps) = p # [q \<leftarrow> first_seen ps. q \<noteq> p]"
  by (simp add: first_seen_def remdups_snoc rev_filter)

lemma add_context_loop_eq:
  "add_context_loop paths ctx = ctx @ [p \<leftarrow> first_seen paths. p \<notin> set ctx]"
proof (induction paths arbitrary: ctx)
  case Nil
  then show ?case by (simp add: first_seen_def)
next
  case (Cons p ps)
  show ?case
  proof (cases "p \<in> set ctx")
    case True
    then have "[q \<leftarrow> first_seen ps. q \<noteq> p \<and> q \<notin> set ctx] = [q \<leftarrow> first_seen ps. q \<notin> set ctx]"
      by (intro filter_cong) auto
    with True Cons.IH [of ctx] show ?thesis
      by (simp add: first_seen_Cons)
  next
    case False
    have "[q \<leftarrow> first_seen ps. q \<noteq> p \<and> q \<notin> set ctx] = [q \<leftarrow> first_seen ps. q \<notin> set ctx \<and> q \<noteq> p]"
      by (intro filter_cong) auto
    with False Cons.IH [of "ctx @ [p]"] show ?thesis
      by (simp add: first_seen_Cons)
  qed
qed

lemma add_context_loop_idem:
  "add_context_loop paths (add_context_loop paths ctx) = add_context_loop paths ctx"
proof -
  have "set (first_seen paths) = set paths" by (simp add: first_seen_def)
  then have "[p \<leftarrow> first_seen paths. p \<notin> set ctx \<and> (p \<in> set paths \<longrightarrow> p \<in> set ctx)] = []"
    by (auto simp: filter_empty_conv)
  then show ?thesis
    by (simp add: add_context_loop_eq [of paths "ctx @ _"] add_context_loop_eq [of paths ctx])
qed

lemma add_context_twice_count:
  "count_list (add_context_loop [p] (add_context_loop [p] ctx)) p = max 1 (count_list ctx p)"
proof (cases "p \<in> set ctx")
  case True
  then have "0 < count_list ctx p" by (metis count_list_0_iff gr0I)
  with True show ?thesis by simp
next
  case False
  then have "count_list ctx p = 0" by (simp add: count_list_0_iff)
  with False show ?thesis by simp
qed

section \<open>AddContext on a loaded registry\<close>

lemma find_update_first:
  "find P xs = Some x \<Longrightarrow> P y \<Longrightarrow> find P (update_first P y xs) = Some y"
  by (induction xs) (auto split: if_splits)

lemma update_first_idem:
  "P y \<Longrightarrow> update_first P y (update_first P y xs) = update_first P y xs"
  by (induction xs) auto

lemma with_added_context_idem:
  "with_added_context paths (with_added_context paths ep) = with_added_context paths ep"
proof -
  have "add_context_loop paths (add_context_loop paths (ep_context ep))
      = add_context_loop paths (ep_context ep)"
    by (rule add_context_loop_idem)
  then have "[p \<leftarrow> first_seen paths. p \<notin> set (ep_context ep @ [p \<leftarrow> first_seen paths. p \<notin> set (ep_context ep)])] = []"
    by (simp add: add_context_loop_eq)
  then show ?thesis
    by (simp add: with_added_context_def)
qed

lemma add_context_once:
  assumes "load_registry loads rfault w = (Inr epistles, w1)"
    and "find (\<lambda>e. lower (ep_id e) = lower ident) epistles = Some ep"
  shows "cmd_epistle_add_context lower dumps loads rfault Write_ok ident (Some paths) w
      = (Inr (),
         w1\<lparr>files := (files w1)(registry_path \<mapsto>
                  registry_text dumps
                    (update_first (\<lambda>e. lower (ep_id e) = lower ident) (with_added_context paths ep) epistles)),
            stdout := stdout w1 @ [Out_epistle (with_added_context paths ep), Out_context_added (ep_id ep)]\<rparr>)"
  using assms
  by (simp add: cmd_epistle_add_context_def save_registry_def write_file_def
      with_added_context_def add_context_loop_eq Let_def)

section \<open>One run of Create\<close>

lemma load_registry_outcome:
  "load_registry loads fault w
     = (Inr (fst (load_outcome loads fault (files w registry_path))),
        if snd (load_outcome loads fault (files w registry_path))
        then w\<lparr>stderr := stderr w @ [Error_loading_registry]\<rparr> else w)"
  by (simp add: load_registry_def load_outcome_def split: option.split read_fault.split prod.split)

lemma registry_files_outcome:
  "registry_files loads w = map ep_file (fst (load_outcome loads Read_ok (files w registry_path)))"
  by (simp add: registry_files_def load_registry_outcome)

lemma load_outcome_text:
  "\<forall>e\<in>set X. json_ok dumps loads e \<Longrightarrow>
   load_outcome loads Read_ok (Some (registry_text dumps X)) = (X, False)"
  by (simp add: load_outcome_def readlines_registry_text load_loop_lines)

lemma load_loop_grows: "prefix acc (fst (load_loop loads ls acc))"
proof (induction ls arbitrary: acc)
  case Nil
  then show ?case by simp
next
  case (Cons l ls)
  have "prefix acc (acc @ [x])" for x :: 'a by simp
  with Cons [of "acc @ [_]"] have "prefix acc (fst (load_loop loads ls (acc @ [x])))" for x
    using prefix_order.trans by blast
  with Cons [of acc] show ?case by (simp add: Let_def split: option.split)
qed

lemma load_loop_take: "prefix (fst (load_loop loads (take k ls) acc)) (fst (load_loop loads ls acc))"
proof (induction ls arbitrary: k acc)
  case Nil
  then show ?case by simp
next
  case (Cons l ls)
  show ?case
  proof (cases k)
    case 0
    then show ?thesis using load_loop_grows [of acc loads "l # ls"] by simp
  next
    case (Suc j)
    with Cons [of j] show ?thesis by (simp add: Let_def split: option.split)
  qed
qed

lemma load_outcome_prefix:
  "prefix (fst (load_outcome loads fault content)) (fst (load_outcome loads Read_ok content))"
  by (cases content; cases fault) (simp_all add: load_outcome_def load_loop_take)

lemma candidate_not_registry: "candidate s t k \<noteq> registry_path"
proof
  assume "candidate s t k = registry_path"
  then have "last (candidate s t k) = last registry_path" by simp
  then show False by (simp add: candidate_def registry_path_def split: if_splits)
qed

lemma unique_filename_result:
  assumes "finite E"
  shows "\<exists>k. unique_filename (\<lambda>f. f \<in> E) slug ts = Some (candidate slug ts k)
            \<and> candidate slug ts k \<notin> E \<and> (\<forall>j<k. candidate slug ts j \<in> E)"
proof -
  define k where "k = (LEAST k. candidate slug ts k \<notin> E)"
  from free_candidate [OF assms] have ex: "\<exists>k. candidate slug ts k \<notin> E" .
  then have free: "candidate slug ts k \<notin> E" unfolding k_def by (rule LeastI_ex)
  have below: "\<forall>j<k. candidate slug ts j \<in> E"
    unfolding k_def using not_less_Least by blast
  from below free
  have "unique_loop (\<lambda>f. f \<in> E) slug ts 0 (candidate slug ts 0) = Some (candidate slug ts (0 + k))"
    by (intro unique_loop_steps) simp_all
  then have "unique_filename (\<lambda>f. f \<in> E) slug ts = Some (candidate slug ts k)"
    by (simp add: unique_filename_def candidate_def)
  with free below show ?thesis by blast
qed

lemma unique_filename_fresh:
  assumes "finite (dom (files w))"
  shows "\<exists>fn. unique_filename (\<lambda>f. f \<in> dom (files w)) slug ts = Some fn
            \<and> files w fn = None \<and> fn \<noteq> registry_path"
  using unique_filename_result [OF assms, of slug ts] candidate_not_registry [of slug ts]
  by (metis domIff)

lemma template_content_Inr:
  "2 \<le> length (ep_personas e) \<Longrightarrow> \<exists>content. template_content e = Inr content"
  by (auto simp: template_content_def Suc_le_eq split: list.split)

lemma write_template_run:
  assumes "2 \<le> length (ep_personas e)" and "fn \<noteq> registry_path"
  shows "\<exists>w1. write_epistle_template fault fn e w = (Inr (), w1)
            \<and> files w1 registry_path = files w registry_path
            \<and> stdout w1 = stdout w
            \<and> (fault = Write_open_fails \<longrightarrow> files w1 = files w \<and> stderr w1 = stderr w @ [Error_writing_epistle])
            \<and> (fault = Write_ok \<longrightarrow> stderr w1 = stderr w)
            \<and> (fault \<noteq> Write_open_fails \<longrightarrow> dom (files w1) = insert fn (dom (files w)))"
proof -
  from template_content_Inr [OF assms(1)] obtain content where c: "template_content e = Inr content" ..
  from assms(2) show ?thesis
    by (cases fault) (auto simp: write_epistle_template_def c write_file_def)
qed

lemma save_registry_run:
  "\<exists>w3. save_registry dumps fault X w = (Inr (), w3) \<and> stdout w3 = stdout w
     \<and> (fault = Write_ok \<longrightarrow> w3 = w\<lparr>files := (files w)(registry_path \<mapsto> registry_text dumps X)\<rparr>)
     \<and> (fault = Write_open_fails \<longrightarrow> files w3 = files w)"
  by (cases fault) (auto simp: save_registry_def write_file_def)

lemma create_too_few:
  "length (personas_of args) < 2 \<Longrightarrow>
   cmd_epistle_new lower dumps loads ft ck args w
     = Some (Inl (SystemExit 1), w\<lparr>stderr := stderr w @ [Need_two_personas]\<rparr>)"
  by (simp add: cmd_epistle_new_def)

lemma create_run:
  assumes two: "2 \<le> length (personas_of args)"
    and uf: "unique_filename (\<lambda>f. f \<in> dom (files w)) (persona_slug_of lower (personas_of args)) (stamp ck) = Some fn"
    and ne: "fn \<noteq> registry_path"
  shows "\<exists>w1 w2 w3.
           write_epistle_template (doc_write ft) fn (new_epistle ck args fn) w = (Inr (), w1)
           \<and> load_registry loads (reg_read ft) w1
               = (Inr (fst (load_outcome loads (reg_read ft) (files w registry_path))), w2)
           \<and> files w2 = files w1 \<and> stdout w2 = stdout w1
           \<and> save_registry dumps (reg_write ft)
                (fst (load_outcome loads (reg_read ft) (files w registry_path)) @ [new_epistle ck args fn]) w2
               = (Inr (), w3)
           \<and> cmd_epistle_new lower dumps loads ft ck args w
               = Some (Inr (), w3\<lparr>stdout := stdout w3 @ [Out_epistle (new_epistle ck args fn), Out_created fn]\<rparr>)"
proof -
  let ?e = "new_epistle ck args fn"
  from two have p: "2 \<le> length (ep_personas ?e)" by (simp add: new_epistle_def)
  from write_template_run [OF p ne, of "doc_write ft" w] obtain w1
    where w1: "write_epistle_template (doc_write ft) fn ?e w = (Inr (), w1)"
      and r1: "files w1 registry_path = files w registry_path" by blast
  let ?eps = "fst (load_outcome loads (reg_read ft) (files w registry_path))"
  obtain w2 where l: "load_registry loads (reg_read ft) w1 = (Inr ?eps, w2)"
    and f2: "files w2 = files w1" and o2: "stdout w2 = stdout w1"
    by (simp add: load_registry_outcome r1)
  from save_registry_run [of dumps "reg_write ft" "?eps @ [?e]" w2] obtain w3
    where s: "save_registry dumps (reg_write ft) (?eps @ [?e]) w2 = (Inr (), w3)" by blast
  from two have "\<not> length (personas_of args) < 2" by simp
  then have "cmd_epistle_new lower dumps loads ft ck args w
      = Some (Inr (), w3\<lparr>stdout := stdout w3 @ [Out_epistle ?e, Out_created fn]\<rparr>)"
    by (simp add: cmd_epistle_new_def uf w1 l s)
  with w1 l f2 o2 s show ?thesis by blast
qed

section \<open>Create keeps a consistent store consistent\<close>

lemma distinct_prefix: "prefix xs ys \<Longrightarrow> distinct ys \<Longrightarrow> distinct xs"
  by (auto simp: prefix_def)

lemma create_step:
  assumes json: "\<forall>e. json_ok dumps loads e"
    and cons: "store_consistent loads w"
    and d: "doc_write ft \<noteq> Write_open_fails"
    and s: "reg_write ft = Write_ok \<or> reg_write ft = Write_open_fails"
  shows "\<exists>r w'. cmd_epistle_new lower dumps loads ft ck args w = Some (r, w') \<and> store_consistent loads w'
           \<and> (reg_read ft = Read_ok \<and> reg_write ft = Write_ok \<and> 2 \<le> length (personas_of args) \<longrightarrow>
                length (registry_files loads w') = Suc (length (registry_files loads w)))"
proof (cases "length (personas_of args) < 2")
  case True
  let ?w = "w\<lparr>stderr := stderr w @ [Need_two_personas]\<rparr>"
  from cons have "store_consistent loads ?w"
    by (simp add: store_consistent_def registry_files_outcome)
  with create_too_few [OF True, of lower dumps loads ft ck w] True show ?thesis by auto
next
  case False
  then have two: "2 \<le> length (personas_of args)" by simp
  from cons have fin: "finite (dom (files w))" and dis: "distinct (registry_files loads w)"
    and sub: "set (registry_files loads w) \<subseteq> dom (files w)"
    by (simp_all add: store_consistent_def)
  from unique_filename_fresh [OF fin, of "persona_slug_of lower (personas_of args)" "stamp ck"]
  obtain fn where uf: "unique_filename (\<lambda>f. f \<in> dom (files w)) (persona_slug_of lower (personas_of args)) (stamp ck) = Some fn"
    and fresh: "files w fn = None" and ne: "fn \<noteq> registry_path" by blast
  let ?e = "new_epistle ck args fn"
  let ?eps = "fst (load_outcome loads (reg_read ft) (files w registry_path))"
  let ?all = "fst (load_outcome loads Read_ok (files w registry_path))"
  from create_run [OF two uf ne, of ft loads dumps] obtain w1 w2 w3
    where w1: "write_epistle_template (doc_write ft) fn ?e w = (Inr (), w1)"
      and f2: "files w2 = files w1"
      and w3: "save_registry dumps (reg_write ft) (?eps @ [?e]) w2 = (Inr (), w3)"
      and run: "cmd_epistle_new lower dumps loads ft ck args w
          = Some (Inr (), w3\<lparr>stdout := stdout w3 @ [Out_epistle ?e, Out_created fn]\<rparr>)"
    by blast
  let ?w = "w3\<lparr>stdout := stdout w3 @ [Out_epistle ?e, Out_created fn]\<rparr>"
  from two have p: "2 \<le> length (ep_personas ?e)" by (simp add: new_epistle_def)
  from write_template_run [OF p ne, of "doc_write ft" w] w1 d
  have r1: "files w1 registry_path = files w registry_path"
    and d1: "dom (files w1) = insert fn (dom (files w))" by auto
  have pre: "prefix (map ep_file ?eps) (registry_files loads w)"
    unfolding registry_files_outcome by (intro map_mono_prefix load_outcome_prefix)
  from pre dis have dis_eps: "distinct (map ep_file ?eps)" by (rule distinct_prefix)
  from pre have "set (map ep_file ?eps) \<subseteq> set (registry_files loads w)" by (rule set_mono_prefix)
  with sub have sub_eps: "set (map ep_file ?eps) \<subseteq> dom (files w)" by blast
  with fresh have nin: "fn \<notin> set (map ep_file ?eps)" by (auto simp: domIff)
  have ef: "ep_file ?e = fn" by (simp add: new_epistle_def)
  from s show ?thesis
  proof
    assume ok: "reg_write ft = Write_ok"
    with save_registry_run [of dumps "reg_write ft" "?eps @ [?e]" w2] w3
    have e3: "w3 = w2\<lparr>files := (files w2)(registry_path \<mapsto> registry_text dumps (?eps @ [?e]))\<rparr>" by auto
    from json have "\<forall>x\<in>set (?eps @ [?e]). json_ok dumps loads x" by simp
    from load_outcome_text [OF this]
    have rf: "registry_files loads ?w = map ep_file ?eps @ [fn]"
      by (simp add: registry_files_outcome e3 ef)
    have dm: "dom (files ?w) = insert registry_path (insert fn (dom (files w)))"
      by (simp add: e3 f2 d1)
    from rf dis_eps nin sub_eps fin dm have c: "store_consistent loads ?w"
      by (auto simp: store_consistent_def)
    have "reg_read ft = Read_ok \<longrightarrow> length (registry_files loads ?w) = Suc (length (registry_files loads w))"
      unfolding rf by (simp add: registry_files_outcome [of loads w])
    with run c show ?thesis by blast
  next
    assume fails: "reg_write ft = Write_open_fails"
    with save_registry_run [of dumps "reg_write ft" "?eps @ [?e]" w2] w3
    have e3: "files w3 = files w2" by auto
    have rf: "registry_files loads ?w = registry_files loads w"
      by (simp add: registry_files_outcome e3 f2 r1)
    have dm: "dom (files ?w) = insert fn (dom (files w))"
      by (simp add: e3 f2 d1)
    from rf dis sub fin dm have c: "store_consistent loads ?w"
      by (auto simp: store_consistent_def)
    with run fails show ?thesis by auto
  qed
qed

lemma create_calls_consistent:
  assumes json: "\<forall>e. json_ok dumps loads e"
  shows "store_consistent loads w \<Longrightarrow>
     \<forall>c\<in>set calls. doc_write (fst c) \<noteq> Write_open_fails
        \<and> (reg_write (fst c) = Write_ok \<or> reg_write (fst c) = Write_open_fails) \<Longrightarrow>
     \<exists>w'. create_calls lower dumps loads calls w = Some w' \<and> store_consistent loads w'
        \<and> ((\<forall>c\<in>set calls. reg_read (fst c) = Read_ok \<and> reg_write (fst c) = Write_ok
               \<and> 2 \<le> length (personas_of (snd (snd c)))) \<longrightarrow>
             length (registry_files loads w') = length (registry_files loads w) + length calls)"
proof (induction calls arbitrary: w)
  case Nil
  then show ?case by simp
next
  case (Cons c calls)
  obtain ft ck args where c: "c = (ft, ck, args)" by (cases c)
  from Cons.prems(2) c have d: "doc_write ft \<noteq> Write_open_fails"
    and s: "reg_write ft = Write_ok \<or> reg_write ft = Write_open_fails" by simp_all
  from create_step [OF json Cons.prems(1) d s, of lower ck args] obtain r w1
    where run: "cmd_epistle_new lower dumps loads ft ck args w = Some (r, w1)"
      and cons: "store_consistent loads w1"
      and len: "reg_read ft = Read_ok \<and> reg_write ft = Write_ok \<and> 2 \<le> length (personas_of args) \<longrightarrow>
          length (registry_files loads w1) = Suc (length (registry_files loads w))"
    by blast
  from Cons.prems(2) have rest: "\<forall>c\<in>set calls. doc_write (fst c) \<noteq> Write_open_fails
        \<and> (reg_write (fst c) = Write_ok \<or> reg_write (fst c) = Write_open_fails)" by simp
  from Cons.IH [OF cons rest] obtain w' where w': "create_calls lower dumps loads calls w1 = Some w'"
    and c': "store_consistent loads w'"
    and l': "(\<forall>c\<in>set calls. reg_read (fst c) = Read_ok \<and> reg_write (fst c) = Write_ok
               \<and> 2 \<le> length (personas_of (snd (snd c)))) \<longrightarrow>
             length (registry_files loads w') = length (registry_files loads w1) + length calls"
    by blast
  from run w' c have "create_calls lower dumps loads (c # calls) w = Some w'" by simp
  moreover from len l' c have "(\<forall>c\<in>set (c # calls). reg_read (fst c) = Read_ok \<and> reg_write (fst c) = Write_ok
               \<and> 2 \<le> length (personas_of (snd (snd c)))) \<longrightarrow>
             length (registry_files loads w') = length (registry_files loads w) + length (c # calls)"
    by simp
  ultimately show ?case using c' by blast
qed

section \<open>The example invocation\<close>

lemma example_personas: "personas_of example_args = [''Alice'', ''Bob'']"
  by code_simp

lemma example_slug: "persona_slug_of ascii_lower [''Alice'', ''Bob''] = ''alice_bob''"
  by code_simp

lemma digit_char_0: "digit_char 0 = CHR ''0''"
  unfolding digit_char_def by (simp add: char_of_def bit_Suc_0_iff)

lemma digit_char_1: "digit_char 1 = CHR ''1''"
  unfolding digit_char_def by (simp add: char_of_def bit_Suc_0_iff)

lemma digit_char_2: "digit_char 2 = CHR ''2''"
  unfolding digit_char_def by (simp add: char_of_def bit_Suc_0_iff)

lemma digit_char_3: "digit_char 3 = CHR ''3''"
  unfolding digit_char_def by (simp add: char_of_def bit_Suc_0_iff)

lemma digit_char_4: "digit_char 4 = CHR ''4''"
  unfolding digit_char_def by (simp add: char_of_def bit_Suc_0_iff)

lemma digit_char_5: "digit_char 5 = CHR ''5''"
  unfolding digit_char_def by (simp add: char_of_def bit_Suc_0_iff)

lemma digit_char_6: "digit_char 6 = CHR ''6''"
  unfolding digit_char_def by (simp add: char_of_def bit_Suc_0_iff)

lemma digit_char_7: "digit_char 7 = CHR ''7''"
  unfolding digit_char_def by (simp add: char_of_def bit_Suc_0_iff)

lemma digit_char_8: "digit_char 8 = CHR ''8''"
  unfolding digit_char_def by (simp add: char_of_def bit_Suc_0_iff)

lemma digit_char_9: "digit_char 9 = CHR ''9''"
  unfolding digit_char_def by (simp add: char_of_def bit_Suc_0_iff)

lemma digit_char_Suc_0: "digit_char (Suc 0) = CHR ''1''"
  using digit_char_1 by simp

lemmas digit_char_table =
  digit_char_Suc_0 digit_char_0 digit_char_1 digit_char_2 digit_char_3 digit_char_4 digit_char_5 digit_char_6 digit_char_7 digit_char_8 digit_char_9

lemma example_id: "str_int 1700000000 = ''1700000000''"
  by (simp add: str_int_def str_nat.simps digit_char_table)

lemma example_new: "new_epistle example_clock example_args ''alice_bob_20231114T221320.md'' = example_a"
  by (simp add: new_epistle_def example_personas example_a_def)
     (simp add: example_clock_def example_args_def example_id)

lemma example_stamp: "stamp example_clock = ''20231114T221320''"
  by (simp add: example_clock_def)

lemma unique_filename_free:
  "\<not> ex (slug @ ''_'' @ ts @ ''.md'') \<Longrightarrow> unique_filename ex slug ts = Some (slug @ ''_'' @ ts @ ''.md'')"
  by (simp add: unique_filename_def unique_loop.simps)

lemma create_doc_fails:
  assumes two: "2 \<le> length (personas_of args)"
    and uf: "unique_filename (\<lambda>f. f \<in> dom (files w)) (persona_slug_of lower (personas_of args)) (stamp ck) = Some fn"
    and old: "load_outcome loads Read_ok (files w registry_path) = (old, False)"
  shows "cmd_epistle_new lower dumps loads doc_fails ck args w
      = Some (Inr (),
          w\<lparr>files := (files w)(registry_path \<mapsto> registry_text dumps (old @ [new_epistle ck args fn])),
            stderr := stderr w @ [Error_writing_epistle],
            stdout := stdout w @ [Out_epistle (new_epistle ck args fn), Out_created fn]\<rparr>)"
proof -
  from two have p: "2 \<le> length (ep_personas (new_epistle ck args fn))" by (simp add: new_epistle_def)
  from template_content_Inr [OF p] obtain content
    where c: "template_content (new_epistle ck args fn) = Inr content" ..
  from two have "\<not> length (personas_of args) < 2" by simp
  then show ?thesis
    by (simp add: cmd_epistle_new_def uf write_epistle_template_def c write_file_def doc_fails_def
        load_registry_outcome old save_registry_def Let_def)
qed

lemma example_first_name:
  "unique_filename (\<lambda>f. f \<in> dom (files empty_store)) (persona_slug_of ascii_lower (personas_of example_args))
     (stamp example_clock) = Some ''alice_bob_20231114T221320.md''"
  using unique_filename_free [of "\<lambda>f. f \<in> dom (files empty_store)" "''alice_bob''" "''20231114T221320''"]
  by (simp add: example_personas example_slug example_stamp empty_store_def)

lemma example_two: "2 \<le> length (personas_of example_args)"
  by (simp add: example_personas)

lemma create_doc_fails_first:
  "cmd_epistle_new ascii_lower sample_dumps sample_loads doc_fails example_clock example_args empty_store
     = Some (Inr (),
         \<lparr>files = [registry_path \<mapsto> registry_text sample_dumps [example_a]],
          stderr = [Error_writing_epistle],
          stdout = [Out_epistle example_a, Out_created ''alice_bob_20231114T221320.md'']\<rparr>)"
proof -
  have o: "load_outcome sample_loads Read_ok (files empty_store registry_path) = ([], False)"
    by (simp add: load_outcome_def empty_store_def)
  show ?thesis
    unfolding create_doc_fails [OF example_two example_first_name o] example_new
    by (simp add: empty_store_def)
qed

section \<open>Two invocations in the same second\<close>

lemma create_no_faults:
  assumes two: "2 \<le> length (personas_of args)"
    and uf: "unique_filename (\<lambda>f. f \<in> dom (files w)) (persona_slug_of lower (personas_of args)) (stamp ck) = Some fn"
    and ne: "fn \<noteq> registry_path"
    and old: "load_outcome loads Read_ok (files w registry_path) = (old, False)"
    and c: "template_content (new_epistle ck args fn) = Inr content"
  shows "cmd_epistle_new lower dumps loads no_faults ck args w
      = Some (Inr (),
          w\<lparr>files := (files w)(fn \<mapsto> content,
                  registry_path \<mapsto> registry_text dumps (old @ [new_epistle ck args fn])),
            stdout := stdout w @ [Out_epistle (new_epistle ck args fn), Out_created fn]\<rparr>)"
proof -
  from two have "\<not> length (personas_of args) < 2" by simp
  with ne show ?thesis
    by (simp add: cmd_epistle_new_def uf write_epistle_template_def c write_file_def no_faults_def
        load_registry_outcome old save_registry_def Let_def)
qed

lemma example_second_candidate:
  "candidate ''alice_bob'' ''20231114T221320'' (Suc 0) = ''alice_bob_20231114T221320_1.md''"
  by (simp add: candidate_def str_nat.simps digit_char_table)

lemma example_twice:
  "map_option (registry_files sample_loads)
     (create_calls ascii_lower sample_dumps sample_loads
        [(no_faults, example_clock, example_args), (no_faults, example_clock, example_args)]
        empty_store)
     = Some [''alice_bob_20231114T221320.md'', ''alice_bob_20231114T221320_1.md'']"
proof -
  let ?f0 = "''alice_bob_20231114T221320.md''"
  let ?f1 = "''alice_bob_20231114T221320_1.md''"
  let ?b = "example_a\<lparr>ep_file := ?f1\<rparr>"
  have pa: "ep_personas example_a = [''Alice'', ''Bob'']"
    by (simp add: example_a_def)
  have c0: "template_content (new_epistle example_clock example_args ?f0)
      = Inr (template_text ''Alice'' ''Bob'' example_a)"
    unfolding example_new by (simp add: template_content_def pa)
  have o0: "load_outcome sample_loads Read_ok (files empty_store registry_path) = ([], False)"
    by (simp add: load_outcome_def empty_store_def)
  have n0: "?f0 \<noteq> registry_path"
    by (simp add: registry_path_def)
  define w1 where "w1 = empty_store\<lparr>files := (files empty_store)(?f0 \<mapsto> template_text ''Alice'' ''Bob'' example_a,
        registry_path \<mapsto> registry_text sample_dumps [example_a]),
      stdout := stdout empty_store @ [Out_epistle example_a, Out_created ?f0]\<rparr>"
  have s1: "cmd_epistle_new ascii_lower sample_dumps sample_loads no_faults example_clock example_args empty_store
      = Some (Inr (), w1)"
    unfolding create_no_faults [OF example_two example_first_name n0 o0 c0] example_new w1_def by simp
  have d1: "dom (files w1) = {?f0, registry_path}"
    by (auto simp: w1_def empty_store_def)
  have "unique_loop (\<lambda>f. f \<in> dom (files w1)) ''alice_bob'' ''20231114T221320'' 0
        (candidate ''alice_bob'' ''20231114T221320'' 0)
      = Some (candidate ''alice_bob'' ''20231114T221320'' (0 + 1))"
    by (rule unique_loop_steps)
       (simp_all add: d1 example_second_candidate registry_path_def, simp add: candidate_def)
  then have uf: "unique_filename (\<lambda>f. f \<in> dom (files w1)) (persona_slug_of ascii_lower (personas_of example_args))
      (stamp example_clock) = Some ?f1"
    by (simp add: unique_filename_def example_personas example_slug example_stamp
        example_second_candidate) (simp add: candidate_def)
  have n1: "?f1 \<noteq> registry_path"
    by (simp add: registry_path_def)
  have e1: "new_epistle example_clock example_args ?f1 = ?b"
    by (simp add: new_epistle_def example_personas example_a_def)
       (simp add: example_clock_def example_args_def example_id)
  have c1: "template_content (new_epistle example_clock example_args ?f1)
      = Inr (template_text ''Alice'' ''Bob'' ?b)"
    unfolding e1 by (simp add: template_content_def pa)
  have "load_outcome sample_loads Read_ok (Some (registry_text sample_dumps [example_a])) = ([example_a], False)"
    by (rule load_outcome_text) (simp add: sample_json_ok)
  then have o1: "load_outcome sample_loads Read_ok (files w1 registry_path) = ([example_a], False)"
    by (simp add: w1_def)
  define w2 where "w2 = w1\<lparr>files := (files w1)(?f1 \<mapsto> template_text ''Alice'' ''Bob'' ?b,
        registry_path \<mapsto> registry_text sample_dumps [example_a, ?b]),
      stdout := stdout w1 @ [Out_epistle ?b, Out_created ?f1]\<rparr>"
  have s2: "cmd_epistle_new ascii_lower sample_dumps sample_loads no_faults example_clock example_args w1
      = Some (Inr (), w2)"
    unfolding create_no_faults [OF example_two uf n1 o1 c1] e1 w2_def by simp
  have "load_outcome sample_loads Read_ok (Some (registry_text sample_dumps [example_a, ?b]))
      = ([example_a, ?b], False)"
    by (rule load_outcome_text) (simp add: sample_json_ok)
  then have "registry_files sample_loads w2 = [ep_file example_a, ?f1]"
    by (simp add: registry_files_outcome w2_def)
  then have r: "registry_files sample_loads w2 = [?f0, ?f1]"
    by (simp add: example_a_def)
  show ?thesis by (simp add: s1 s2 r)
qed

section \<open>What load returns and which record Show finds\<close>

lemma load_loop_records:
  "load_loop loads ls acc
     = (acc @ map the (takeWhile (\<lambda>r. r \<noteq> None) (map loads [s \<leftarrow> map strip ls. s \<noteq> []])),
        None \<in> set (map loads [s \<leftarrow> map strip ls. s \<noteq> []]))"
proof (induction ls arbitrary: acc)
  case Nil
  show ?case by simp
next
  case (Cons l ls)
  show ?case
  proof (cases "strip l = []")
    case True
    then show ?thesis by (simp add: Cons.IH)
  next
    case False
    show ?thesis
    proof (cases "loads (strip l)")
      case None
      with False show ?thesis by simp
    next
      case (Some ep)
      with False show ?thesis by (simp add: Cons.IH)
    qed
  qed
qed

lemma show_lookup_Some:
  assumes "epistles = pre @ ep # post"
    and "lower (ep_id ep) = target \<or> prefix target (lower (ep_file ep))"
    and "\<forall>x\<in>set pre. lower (ep_id x) \<noteq> target \<and> \<not> prefix target (lower (ep_file x))"
  shows "show_lookup lower target epistles = Some ep"
proof -
  from assms have "\<exists>pre post. epistles = pre @ ep # post \<and> show_matches lower target ep
      \<and> (\<forall>y\<in>set pre. \<not> show_matches lower target y)"
    unfolding show_matches_def by blast
  then show ?thesis
    unfolding show_lookup_def by (rule find_first_match [THEN iffD2])
qed

lemma show_lookup_None:
  assumes "\<forall>x\<in>set epistles. lower (ep_id x) \<noteq> target \<and> \<not> prefix target (lower (ep_file x))"
  shows "show_lookup lower target epistles = None"
  using assms by (simp add: show_lookup_def find_None_iff show_matches_def)

section \<open>Claims\<close>

text \<open>
  C9. For every finite set \<open>E\<close> of names already present in the store directory the
  collision loop of Create returns. The name it returns is the candidate of some counter
  \<open>k\<close> (the base name for \<open>k = 0\<close>, the base name with suffix \<open>_k\<close> otherwise), it is
  not in \<open>E\<close>, every candidate of a smaller counter is in \<open>E\<close> (the suffixes were tried in
  increasing order), and candidates of different counters are different names, so no name
  is tried twice.
\<close>

theorem C9_unique_filename_terminates:
  assumes "finite E"
  shows "\<exists>k. unique_filename (\<lambda>f. f \<in> E) slug ts = Some (candidate slug ts k)
            \<and> candidate slug ts k \<notin> E
            \<and> (\<forall>j<k. candidate slug ts j \<in> E)
            \<and> (\<forall>i j. candidate slug ts i = candidate slug ts j \<longrightarrow> i = j)"
  using unique_filename_result [OF assms, of slug ts] candidate_inj [of slug ts] by blast

theorem C9_unique_filename_witness:
  "finite {''alice_bob_20250101T120000.md'', ''alice_bob_20250101T120000_1.md''}
   \<and> (\<exists>k. unique_filename
             (\<lambda>f. f \<in> {''alice_bob_20250101T120000.md'', ''alice_bob_20250101T120000_1.md''})
             ''alice_bob'' ''20250101T120000'' = Some (candidate ''alice_bob'' ''20250101T120000'' k)
          \<and> candidate ''alice_bob'' ''20250101T120000'' k
              \<notin> {''alice_bob_20250101T120000.md'', ''alice_bob_20250101T120000_1.md''})"
  using C9_unique_filename_terminates
    [of "{''alice_bob_20250101T120000.md'', ''alice_bob_20250101T120000_1.md''}"
        "''alice_bob''" "''20250101T120000''"]
  by blast

text \<open>
  C8. For a sequence \<open>X\<close> of records on which the JSON library round-trips (the empty
  sequence included), a successful save of \<open>X\<close> followed by a load yields exactly \<open>X\<close> and
  prints nothing; hence saving what a load returned leaves what a load returns unchanged.
\<close>

theorem C8_save_load_roundtrip:
  "((\<forall>e\<in>set X. json_ok dumps loads e) \<longrightarrow>
      load_registry loads Read_ok (snd (save_registry dumps Write_ok X w))
        = (Inr X, snd (save_registry dumps Write_ok X w)))
   \<and> (fst (load_registry loads Read_ok v) = Inr Y \<and> (\<forall>e\<in>set Y. json_ok dumps loads e) \<longrightarrow>
        fst (load_registry loads Read_ok
               (snd (save_registry dumps Write_ok Y (snd (load_registry loads Read_ok v)))))
          = fst (load_registry loads Read_ok v))"
proof -
  have rt: "load_registry loads Read_ok (snd (save_registry dumps Write_ok Z u))
        = (Inr Z, snd (save_registry dumps Write_ok Z u))"
    if "\<forall>e\<in>set Z. json_ok dumps loads e" for Z :: "'a list" and u
    using that by (intro load_registry_text) (simp_all add: save_registry_def write_file_def)
  show ?thesis using rt by simp
qed

theorem C8_save_load_roundtrip_witness:
  "json_ok sample_dumps sample_loads example_a \<and> json_ok sample_dumps sample_loads example_b
   \<and> load_registry sample_loads Read_ok
        (snd (save_registry sample_dumps Write_ok [example_a, example_b] empty_store))
       = (Inr [example_a, example_b],
          snd (save_registry sample_dumps Write_ok [example_a, example_b] empty_store))
   \<and> fst (load_registry sample_loads Read_ok (store_of [example_a])) = Inr [example_a]
   \<and> fst (load_registry sample_loads Read_ok
             (snd (save_registry sample_dumps Write_ok [example_a]
                     (snd (load_registry sample_loads Read_ok (store_of [example_a]))))))
       = fst (load_registry sample_loads Read_ok (store_of [example_a]))"
proof -
  have l: "load_registry sample_loads Read_ok (store_of [example_a]) = (Inr [example_a], store_of [example_a])"
    by (rule load_registry_text [where dumps = sample_dumps]) (simp_all add: sample_json_ok store_of_def)
  show ?thesis
    using C8_save_load_roundtrip [of "[example_a, example_b]" sample_dumps sample_loads empty_store
        "store_of [example_a]" "[example_a]"] l
    by (simp add: sample_json_ok)
qed

text \<open>
  C10. When the lines of the backing file are \<open>pre\<close>, then a non-blank line \<open>bad\<close> on
  which \<open>json.loads\<close> raises, then \<open>post\<close>, and the non-blank lines of \<open>pre\<close> parse to the
  records \<open>recs\<close>, load returns normally with exactly \<open>recs\<close>: nothing of \<open>post\<close> is read,
  the malformed line is not skipped, and the failure shows only as one message on standard
  error. A line is blank when \<open>str.strip\<close> leaves nothing of it, as for a line holding
  only a no-break space.
\<close>

theorem C10_load_stops_at_malformed_line:
  assumes "files w registry_path = Some text"
    and "readlines text = pre @ bad # post"
    and "list_all2 (\<lambda>l r. loads (strip l) = Some r) [l \<leftarrow> pre. strip l \<noteq> []] recs"
    and "strip bad \<noteq> []"
    and "loads (strip bad) = None"
  shows "load_registry loads Read_ok w
           = (Inr recs, w\<lparr>stderr := stderr w @ [Error_loading_registry]\<rparr>)"
  using assms(1,2) load_loop_malformed [OF assms(3,4,5), of post "[]"]
  by (simp add: load_registry_def)

theorem C10_load_stops_at_malformed_line_witness:
  "files broken_store registry_path = Some broken_text
   \<and> readlines broken_text
       = [sample_dumps example_a @ [LF], [CHR 0xC2, CHR 0xA0, LF]]
           @ (''not json'' @ [LF]) # [sample_dumps example_b @ [LF]]
   \<and> list_all2 (\<lambda>l r. sample_loads (strip l) = Some r)
        [l \<leftarrow> [sample_dumps example_a @ [LF], [CHR 0xC2, CHR 0xA0, LF]]. strip l \<noteq> []] [example_a]
   \<and> strip (''not json'' @ [LF]) \<noteq> []
   \<and> sample_loads (strip (''not json'' @ [LF])) = None
   \<and> load_registry sample_loads Read_ok broken_store
       = (Inr [example_a], broken_store\<lparr>stderr := stderr broken_store @ [Error_loading_registry]\<rparr>)"
proof -
  have f: "files broken_store registry_path = Some broken_text"
    by (simp add: broken_store_def)
  have s: "strip (''not json'' @ [LF]) = ''not json''"
    by code_simp
  have b: "strip [CHR 0xC2, CHR 0xA0, LF] = []"
    by code_simp
  have a: "sample_loads (sample_dumps example_a) = Some example_a"
    using sample_json_ok [of example_a] by (simp add: json_ok_def)
  have n: "sample_dumps example_a \<noteq> []"
    using sample_json_ok [of example_a] by (simp add: json_ok_def)
  have l: "list_all2 (\<lambda>l r. sample_loads (strip l) = Some r)
        [l \<leftarrow> [sample_dumps example_a @ [LF], [CHR 0xC2, CHR 0xA0, LF]]. strip l \<noteq> []] [example_a]"
    using a n b by (simp add: strip_sample_line)
  have m: "sample_loads (strip (''not json'' @ [LF])) = None"
    unfolding s by (simp add: sample_loads_def)
  have k: "strip (''not json'' @ [LF]) \<noteq> []"
    unfolding s by simp
  from C10_load_stops_at_malformed_line [OF f readlines_broken_text l k m] f readlines_broken_text l k m
  show ?thesis by blast
qed

text \<open>
  C2 as stated does not hold. The backing file holds one record; a save of two records
  whose write fails after one character leaves the file holding that one character.
\<close>

theorem C2_failed_save_counterexample:
  "files (store_of [example_a]) registry_path = Some (registry_text sample_dumps [example_a])
   \<and> registry_text sample_dumps [example_a] \<noteq> ''{''
   \<and> save_registry sample_dumps (Write_fails_after 1) [example_a, example_b] (store_of [example_a])
       = (Inr (), \<lparr>files = [registry_path \<mapsto> ''{''], stderr = [Error_saving_registry], stdout = []\<rparr>)"
  by (simp add: save_registry_def write_file_def store_of_def registry_text_def sample_dumps_unfold)

text \<open>
  C2, amended. A save that fails when the backing file is opened leaves the store as it
  was. A save that fails after \<open>n\<close> characters were written leaves the backing file holding
  the first \<open>n\<close> characters of the new text, since opening for writing had already
  truncated the file. In both cases save prints one message and returns normally.
\<close>

theorem C2_failed_save:
  "save_registry dumps Write_open_fails X w
     = (Inr (), w\<lparr>stderr := stderr w @ [Error_saving_registry]\<rparr>)
   \<and> (n < length (registry_text dumps X) \<longrightarrow>
        save_registry dumps (Write_fails_after n) X w
          = (Inr (), w\<lparr>files := (files w)(registry_path \<mapsto> take n (registry_text dumps X)),
                         stderr := stderr w @ [Error_saving_registry]\<rparr>))"
  by (simp add: save_registry_def write_file_def)

theorem C2_failed_save_witness:
  "1 < length (registry_text sample_dumps [example_a, example_b])
   \<and> save_registry sample_dumps (Write_fails_after 1) [example_a, example_b] (store_of [example_a])
       = (Inr (), (store_of [example_a])
            \<lparr>files := (files (store_of [example_a]))
                 (registry_path \<mapsto> take 1 (registry_text sample_dumps [example_a, example_b])),
             stderr := stderr (store_of [example_a]) @ [Error_saving_registry]\<rparr>)"
proof -
  have l: "1 < length (registry_text sample_dumps [example_a, example_b])"
    by (simp add: registry_text_def sample_dumps_unfold)
  with C2_failed_save [of sample_dumps "[example_a, example_b]" "store_of [example_a]" 1]
  show ?thesis by blast
qed

text \<open>
  C4 as stated does not hold. The backing file holds one record. When it cannot be
  opened, load returns normally with the empty sequence it also returns for a store
  without a backing file, and the failure shows only on standard error; when the test of
  its existence fails, load returns the empty sequence and shows nothing at all.
\<close>

theorem C4_io_failure_counterexample:
  "load_registry sample_loads Read_ok (store_of [example_a]) = (Inr [example_a], store_of [example_a])
   \<and> load_registry sample_loads Read_open_fails (store_of [example_a])
       = (Inr [], (store_of [example_a])\<lparr>stderr := [Error_loading_registry]\<rparr>)
   \<and> load_registry sample_loads Read_stat_fails (store_of [example_a]) = (Inr [], store_of [example_a])
   \<and> load_registry sample_loads Read_ok empty_store = (Inr [], empty_store)"
proof -
  have "load_registry sample_loads Read_ok (store_of [example_a]) = (Inr [example_a], store_of [example_a])"
    by (rule load_registry_text [where dumps = sample_dumps]) (simp_all add: sample_json_ok store_of_def)
  then show ?thesis
    by (simp add: load_registry_def store_of_def empty_store_def)
qed

text \<open>
  C4, amended. Load and save never leave by an exception and never return an error. A
  failed test of the existence of the backing file is taken, silently, for its absence:
  load returns the empty sequence and prints nothing. Every other I/O failure is caught
  inside the operation, which prints one message on standard error and returns normally.
  Load then returns the records parsed from the lines read before the failure (none when
  the file could not be opened; the non-blank ones among the first \<open>k\<close> lines, up to the
  first that does not parse, when reading fails after \<open>k\<close> lines) and leaves every file as
  it was. A save that fails when the backing file is opened leaves the store as it was,
  and a save that fails after \<open>n\<close> characters leaves the backing file holding the first
  \<open>n\<close> characters of the new text.
\<close>

theorem C4_io_failures_are_caught:
  "load_registry loads Read_stat_fails w = (Inr [], w)
   \<and> (files w registry_path = None \<longrightarrow> load_registry loads rfault w = (Inr [], w))
   \<and> (files w registry_path = Some content \<longrightarrow>
        load_registry loads Read_open_fails w
          = (Inr [], w\<lparr>stderr := stderr w @ [Error_loading_registry]\<rparr>)
        \<and> load_registry loads (Read_fails_at k) w
          = (Inr (map the (takeWhile (\<lambda>r. r \<noteq> None)
                     (map loads [s \<leftarrow> map strip (take k (readlines content)). s \<noteq> []]))),
             w\<lparr>stderr := stderr w @ [Error_loading_registry]\<rparr>)
        \<and> load_registry loads Read_ok w
          = (Inr (map the (takeWhile (\<lambda>r. r \<noteq> None)
                     (map loads [s \<leftarrow> map strip (readlines content). s \<noteq> []]))),
             if None \<in> set (map loads [s \<leftarrow> map strip (readlines content). s \<noteq> []])
             then w\<lparr>stderr := stderr w @ [Error_loading_registry]\<rparr> else w))
   \<and> save_registry dumps Write_ok X w
       = (Inr (), w\<lparr>files := (files w)(registry_path \<mapsto> registry_text dumps X)\<rparr>)
   \<and> save_registry dumps Write_open_fails X w
       = (Inr (), w\<lparr>stderr := stderr w @ [Error_saving_registry]\<rparr>)
   \<and> (n < length (registry_text dumps X) \<longrightarrow>
        save_registry dumps (Write_fails_after n) X w
          = (Inr (), w\<lparr>files := (files w)(registry_path \<mapsto> take n (registry_text dumps X)),
                         stderr := stderr w @ [Error_saving_registry]\<rparr>))"
proof -
  have s: "load_registry loads Read_stat_fails w = (Inr [], w)"
    by (simp add: load_registry_def)
  have a: "files w registry_path = None \<longrightarrow> load_registry loads rfault w = (Inr [], w)"
    by (simp add: load_registry_def)
  have p: "files w registry_path = Some content \<longrightarrow>
        load_registry loads Read_open_fails w
          = (Inr [], w\<lparr>stderr := stderr w @ [Error_loading_registry]\<rparr>)
        \<and> load_registry loads (Read_fails_at k) w
          = (Inr (map the (takeWhile (\<lambda>r. r \<noteq> None)
                     (map loads [s \<leftarrow> map strip (take k (readlines content)). s \<noteq> []]))),
             w\<lparr>stderr := stderr w @ [Error_loading_registry]\<rparr>)
        \<and> load_registry loads Read_ok w
          = (Inr (map the (takeWhile (\<lambda>r. r \<noteq> None)
                     (map loads [s \<leftarrow> map strip (readlines content). s \<noteq> []]))),
             if None \<in> set (map loads [s \<leftarrow> map strip (readlines content). s \<noteq> []])
             then w\<lparr>stderr := stderr w @ [Error_loading_registry]\<rparr> else w)"
    by (simp add: load_registry_def load_loop_records)
  have t: "save_registry dumps Write_ok X w
       = (Inr (), w\<lparr>files := (files w)(registry_path \<mapsto> registry_text dumps X)\<rparr>)
   \<and> save_registry dumps Write_open_fails X w
       = (Inr (), w\<lparr>stderr := stderr w @ [Error_saving_registry]\<rparr>)
   \<and> (n < length (registry_text dumps X) \<longrightarrow>
        save_registry dumps (Write_fails_after n) X w
          = (Inr (), w\<lparr>files := (files w)(registry_path \<mapsto> take n (registry_text dumps X)),
                         stderr := stderr w @ [Error_saving_registry]\<rparr>))"
    by (simp add: save_registry_def write_file_def)
  from s a p t show ?thesis by blast
qed

theorem C4_io_failures_are_caught_witness:
  "files (store_of [example_a, example_b]) registry_path
     = Some (registry_text sample_dumps [example_a, example_b])
   \<and> load_registry sample_loads Read_open_fails (store_of [example_a, example_b])
       = (Inr [], (store_of [example_a, example_b])
            \<lparr>stderr := stderr (store_of [example_a, example_b]) @ [Error_loading_registry]\<rparr>)
   \<and> load_registry sample_loads (Read_fails_at 1) (store_of [example_a, example_b])
       = (Inr [example_a], (store_of [example_a, example_b])
            \<lparr>stderr := stderr (store_of [example_a, example_b]) @ [Error_loading_registry]\<rparr>)
   \<and> files empty_store registry_path = None
   \<and> load_registry sample_loads Read_open_fails empty_store = (Inr [], empty_store)
   \<and> 1 < length (registry_text sample_dumps [example_b])
   \<and> save_registry sample_dumps (Write_fails_after 1) [example_b] (store_of [example_a, example_b])
       = (Inr (), (store_of [example_a, example_b])
            \<lparr>files := (files (store_of [example_a, example_b]))
                 (registry_path \<mapsto> take 1 (registry_text sample_dumps [example_b])),
             stderr := stderr (store_of [example_a, example_b]) @ [Error_saving_registry]\<rparr>)"
proof -
  let ?w = "store_of [example_a, example_b]"
  let ?text = "registry_text sample_dumps [example_a, example_b]"
  have f: "files ?w registry_path = Some ?text"
    by (simp add: store_of_def)
  have e: "files empty_store registry_path = None"
    by (simp add: empty_store_def)
  have l: "1 < length (registry_text sample_dumps [example_b])"
    by (simp add: registry_text_def sample_dumps_unfold)
  have j: "\<forall>e\<in>set [example_a, example_b]. json_ok sample_dumps sample_loads e"
    by (simp add: sample_json_ok)
  have n: "sample_dumps example_a \<noteq> []"
    by (simp add: sample_dumps_unfold)
  have a: "sample_loads (sample_dumps example_a) = Some example_a"
    using sample_json_ok [of example_a] by (simp add: json_ok_def)
  have r: "map the (takeWhile (\<lambda>r. r \<noteq> None)
              (map sample_loads [s \<leftarrow> map strip (take 1 (readlines ?text)). s \<noteq> []])) = [example_a]"
    unfolding readlines_registry_text [OF j] by (simp add: strip_sample_line n a)
  from C4_io_failures_are_caught [where loads = sample_loads and w = "?w" and content = "?text" and k = 1
      and dumps = sample_dumps and X = "[example_b]" and n = 1] f l
  have "load_registry sample_loads Read_open_fails ?w
          = (Inr [], ?w\<lparr>stderr := stderr ?w @ [Error_loading_registry]\<rparr>)"
    and "load_registry sample_loads (Read_fails_at 1) ?w
          = (Inr [example_a], ?w\<lparr>stderr := stderr ?w @ [Error_loading_registry]\<rparr>)"
    and "save_registry sample_dumps (Write_fails_after 1) [example_b] ?w
          = (Inr (), ?w\<lparr>files := (files ?w)(registry_path \<mapsto> take 1 (registry_text sample_dumps [example_b])),
                       stderr := stderr ?w @ [Error_saving_registry]\<rparr>)"
    unfolding r by blast+
  moreover from C4_io_failures_are_caught [where loads = sample_loads and w = empty_store
      and rfault = Read_open_fails] e
  have "load_registry sample_loads Read_open_fails empty_store = (Inr [], empty_store)"
    by blast
  ultimately show ?thesis using f e l by blast
qed

text \<open>
  C3 as stated does not hold. The registry holds a record whose \<open>file\<close> starts with
  \<open>epistle-1700000005\<close> (its first persona is spelt so) and, after it, the record whose
  \<open>id\<close> is \<open>epistle-1700000005\<close>: Show of \<open>EPISTLE-1700000005\<close> resolves to the first
  record, whose \<open>id\<close> is another one, and reports on the document of that record.
\<close>

theorem C3_show_counterexample:
  "ascii_lower (ep_id example_b) = ascii_lower ''EPISTLE-1700000005''
   \<and> ascii_lower (ep_id example_c) \<noteq> ascii_lower ''EPISTLE-1700000005''
   \<and> ep_file example_c = ''epistle-1700000005_bob_20231114T221320.md''
   \<and> ep_file example_b \<noteq> ''epistle-1700000005_bob_20231114T221320.md''
   \<and> cmd_epistle_show ascii_lower sample_loads Read_ok Read_ok ''EPISTLE-1700000005''
        (store_of [example_c, example_b])
       = (Inr (), (store_of [example_c, example_b])
            \<lparr>stderr := [Epistle_file_not_found ''epistle-1700000005_bob_20231114T221320.md'']\<rparr>)"
proof -
  have l: "ascii_lower ''EPISTLE-1700000005'' = ''epistle-1700000005''"
    by code_simp
  have a: "ascii_lower (ep_id example_b) = ''epistle-1700000005''"
    by code_simp
  have b: "ascii_lower (ep_id example_c) \<noteq> ''epistle-1700000005''"
    by code_simp
  have f: "ascii_lower (ep_file example_c) = ''epistle-1700000005_bob_20231114t221320.md''"
    by code_simp
  have n: "ep_file example_c = ''epistle-1700000005_bob_20231114T221320.md''"
    "ep_file example_b \<noteq> ''epistle-1700000005_bob_20231114T221320.md''"
    by (simp_all add: example_c_def example_b_def)
  have s: "show_lookup ascii_lower ''epistle-1700000005'' [example_c, example_b] = Some example_c"
    by (simp add: show_lookup_def show_matches_def f)
  have c: "cmd_epistle_show ascii_lower sample_loads Read_ok Read_ok ''EPISTLE-1700000005''
        (store_of [example_c, example_b])
       = (Inr (), (store_of [example_c, example_b])
            \<lparr>stderr := [Epistle_file_not_found ''epistle-1700000005_bob_20231114T221320.md'']\<rparr>)"
    by (simp add: cmd_epistle_show_def load_store_of l s show_file_def)
       (simp add: store_of_def example_c_def registry_path_def)
  from l a b n c show ?thesis by simp
qed

text \<open>
  C3, amended. Show lower-cases its identifier and resolves it to the first record, in
  the order of the loaded registry, whose lower-cased \<open>id\<close> equals it or whose
  lower-cased \<open>file\<close> starts with it, and reports on the document of that record; when no
  record matches in either way it prints that the identifier was not found and exits with
  status 1. An exact \<open>id\<close> match is therefore preferred only to matches of records that
  come later in the registry. This holds for every function in the place of \<open>str.lower\<close>.
\<close>

theorem C3_show_first_match:
  assumes "load_registry loads fault w = (Inr epistles, w1)"
  shows "(\<forall>pre ep post.
            epistles = pre @ ep # post
            \<and> (lower (ep_id ep) = lower ident \<or> prefix (lower ident) (lower (ep_file ep)))
            \<and> (\<forall>x\<in>set pre. lower (ep_id x) \<noteq> lower ident
                  \<and> \<not> prefix (lower ident) (lower (ep_file x)))
            \<longrightarrow> cmd_epistle_show lower loads fault doc_fault ident w
                  = (Inr (), show_file doc_fault ep w1))
         \<and> ((\<forall>x\<in>set epistles. lower (ep_id x) \<noteq> lower ident
                \<and> \<not> prefix (lower ident) (lower (ep_file x)))
            \<longrightarrow> cmd_epistle_show lower loads fault doc_fault ident w
                  = (Inl (SystemExit 1), w1\<lparr>stderr := stderr w1 @ [Epistle_not_found ident]\<rparr>))"
proof (intro conjI allI impI)
  fix pre ep post
  assume "epistles = pre @ ep # post
            \<and> (lower (ep_id ep) = lower ident \<or> prefix (lower ident) (lower (ep_file ep)))
            \<and> (\<forall>x\<in>set pre. lower (ep_id x) \<noteq> lower ident
                  \<and> \<not> prefix (lower ident) (lower (ep_file x)))"
  then have "show_lookup lower (lower ident) epistles = Some ep"
    by (intro show_lookup_Some [of epistles pre ep post]) simp_all
  with assms show "cmd_epistle_show lower loads fault doc_fault ident w
      = (Inr (), show_file doc_fault ep w1)"
    by (simp add: cmd_epistle_show_def)
next
  assume "\<forall>x\<in>set epistles. lower (ep_id x) \<noteq> lower ident
                \<and> \<not> prefix (lower ident) (lower (ep_file x))"
  then have "show_lookup lower (lower ident) epistles = None"
    by (rule show_lookup_None)
  with assms show "cmd_epistle_show lower loads fault doc_fault ident w
      = (Inl (SystemExit 1), w1\<lparr>stderr := stderr w1 @ [Epistle_not_found ident]\<rparr>)"
    by (simp add: cmd_epistle_show_def)
qed

theorem C3_show_first_match_witness:
  "load_registry sample_loads Read_ok (store_of [example_a, example_b])
     = (Inr [example_a, example_b], store_of [example_a, example_b])
   \<and> ascii_lower (ep_id example_b) = ascii_lower ''EPISTLE-1700000005''
   \<and> ascii_lower (ep_id example_a) \<noteq> ascii_lower ''EPISTLE-1700000005''
   \<and> \<not> prefix (ascii_lower ''EPISTLE-1700000005'') (ascii_lower (ep_file example_a))
   \<and> cmd_epistle_show ascii_lower sample_loads Read_ok Read_ok ''EPISTLE-1700000005''
        (store_of [example_a, example_b])
       = (Inr (), show_file Read_ok example_b (store_of [example_a, example_b]))
   \<and> show_file Read_ok example_b (store_of [example_a, example_b])
       = (store_of [example_a, example_b])
           \<lparr>stderr := [Epistle_file_not_found ''carol_dave_20231114T221325.md'']\<rparr>
   \<and> ascii_lower (ep_id example_a) \<noteq> ascii_lower ''Carol''
   \<and> \<not> prefix (ascii_lower ''Carol'') (ascii_lower (ep_file example_a))
   \<and> ascii_lower (ep_id example_b) \<noteq> ascii_lower ''Carol''
   \<and> prefix (ascii_lower ''Carol'') (ascii_lower (ep_file example_b))
   \<and> cmd_epistle_show ascii_lower sample_loads Read_ok Read_ok ''Carol''
        (store_of [example_a, example_b])
       = (Inr (), show_file Read_ok example_b (store_of [example_a, example_b]))
   \<and> ascii_lower (ep_id example_a) \<noteq> ascii_lower ''Nobody''
   \<and> \<not> prefix (ascii_lower ''Nobody'') (ascii_lower (ep_file example_a))
   \<and> ascii_lower (ep_id example_b) \<noteq> ascii_lower ''Nobody''
   \<and> \<not> prefix (ascii_lower ''Nobody'') (ascii_lower (ep_file example_b))
   \<and> cmd_epistle_show ascii_lower sample_loads Read_ok Read_ok ''Nobody''
        (store_of [example_a, example_b])
       = (Inl (SystemExit 1), (store_of [example_a, example_b])
            \<lparr>stderr := stderr (store_of [example_a, example_b]) @ [Epistle_not_found ''Nobody'']\<rparr>)"
proof -
  let ?w = "store_of [example_a, example_b]"
  have i1: "ascii_lower (ep_id example_b) = ascii_lower ''EPISTLE-1700000005''"
    by code_simp
  have i2: "ascii_lower (ep_id example_a) \<noteq> ascii_lower ''EPISTLE-1700000005''"
    by code_simp
  have i3: "\<not> prefix (ascii_lower ''EPISTLE-1700000005'') (ascii_lower (ep_file example_a))"
    by code_simp
  have c1: "ascii_lower (ep_id example_a) \<noteq> ascii_lower ''Carol''"
    by code_simp
  have c2: "\<not> prefix (ascii_lower ''Carol'') (ascii_lower (ep_file example_a))"
    by code_simp
  have c3: "ascii_lower (ep_id example_b) \<noteq> ascii_lower ''Carol''"
    by code_simp
  have c4: "prefix (ascii_lower ''Carol'') (ascii_lower (ep_file example_b))"
    by code_simp
  have n1: "ascii_lower (ep_id example_a) \<noteq> ascii_lower ''Nobody''"
    by code_simp
  have n2: "\<not> prefix (ascii_lower ''Nobody'') (ascii_lower (ep_file example_a))"
    by code_simp
  have n3: "ascii_lower (ep_id example_b) \<noteq> ascii_lower ''Nobody''"
    by code_simp
  have n4: "\<not> prefix (ascii_lower ''Nobody'') (ascii_lower (ep_file example_b))"
    by code_simp
  have d: "show_file Read_ok example_b ?w
      = ?w\<lparr>stderr := [Epistle_file_not_found ''carol_dave_20231114T221325.md'']\<rparr>"
    by (simp add: show_file_def store_of_def example_b_def registry_path_def)
  have s: "[example_a, example_b] = [example_a] @ example_b # []"
    by simp
  note t = C3_show_first_match [OF load_store_of [of "[example_a, example_b]"],
      where lower = ascii_lower and doc_fault = Read_ok]
  from t [where ident = "''EPISTLE-1700000005''"] s i1 i2 i3
  have r1: "cmd_epistle_show ascii_lower sample_loads Read_ok Read_ok ''EPISTLE-1700000005'' ?w
      = (Inr (), show_file Read_ok example_b ?w)"
    by (metis empty_iff empty_set set_ConsD)
  from t [where ident = "''Carol''"] s c1 c2 c4
  have r2: "cmd_epistle_show ascii_lower sample_loads Read_ok Read_ok ''Carol'' ?w
      = (Inr (), show_file Read_ok example_b ?w)"
    by (metis empty_iff empty_set set_ConsD)
  from t [where ident = "''Nobody''"] n1 n2 n3 n4
  have r3: "cmd_epistle_show ascii_lower sample_loads Read_ok Read_ok ''Nobody'' ?w
      = (Inl (SystemExit 1), ?w\<lparr>stderr := stderr ?w @ [Epistle_not_found ''Nobody'']\<rparr>)"
    by simp
  from load_store_of [of "[example_a, example_b]"] i1 i2 i3 r1 d c1 c2 c3 c4 r2 n1 n2 n3 n4 r3
  show ?thesis by blast
qed

text \<open>
  C6 as stated does not hold. With the empty string as persona filter (\<open>--filter ""\<close>)
  List returns the record of Alice and Bob, in which no persona equals the empty string.
\<close>

theorem C6_list_counterexample:
  "ascii_lower [] \<notin> set (map ascii_lower (ep_personas example_a))
   \<and> cmd_epistle_list ascii_lower sample_loads Read_ok (Some []) None (store_of [example_a])
       = (Inr (), (store_of [example_a])\<lparr>stdout := [Out_count 1, Out_row example_a]\<rparr>)"
proof -
  have "ascii_lower [] \<notin> set (map ascii_lower (ep_personas example_a))"
    by (simp add: example_a_def ascii_lower_def)
  moreover have "cmd_epistle_list ascii_lower sample_loads Read_ok (Some []) None (store_of [example_a])
       = (Inr (), (store_of [example_a])\<lparr>stdout := [Out_count 1, Out_row example_a]\<rparr>)"
    by (simp add: cmd_epistle_list_def load_store_of list_select_def sorted_desc_def)
       (simp add: store_of_def)
  ultimately show ?thesis by simp
qed

text \<open>
  C6, amended. List prints exactly the loaded records (each once, sorted) that satisfy
  both filters: a non-empty \<open>filter_persona\<close> \<open>p\<close> keeps the records in which \<open>p\<close>
  case-insensitively equals some entry of \<open>personas\<close>; a \<open>since_date\<close> \<open>d\<close> keeps the records
  with \<open>d \<le> date\<close> in lexicographic order; an omitted filter, and an empty persona
  filter, exclude nothing. This holds for every function in the place of \<open>str.lower\<close>.
\<close>

theorem C6_list_filters:
  assumes "load_registry loads fault w = (Inr loaded, w1)"
  shows "\<exists>rows.
           cmd_epistle_list lower loads fault filter_arg since_arg w
             = (Inr (), w1\<lparr>stdout := stdout w1 @ Out_count (length rows) # map Out_row rows\<rparr>)
           \<and> mset rows
               = mset [e \<leftarrow> loaded.
                   (\<forall>p. filter_arg = Some p \<and> p \<noteq> [] \<longrightarrow> (\<exists>q\<in>set (ep_personas e). lower q = lower p))
                   \<and> (\<forall>d. since_arg = Some d \<longrightarrow> d \<le> ep_date e)]"
proof -
  let ?sel = "list_select lower filter_arg since_arg loaded"
  have l: "length (sorted_desc ?sel) = length ?sel"
    using mset_sorted_desc [of ?sel] by (metis size_mset)
  from assms have "cmd_epistle_list lower loads fault filter_arg since_arg w
      = (Inr (), w1\<lparr>stdout := stdout w1 @ Out_count (length (sorted_desc ?sel)) # map Out_row (sorted_desc ?sel)\<rparr>)"
    by (simp add: cmd_epistle_list_def Let_def l)
  moreover have "mset (sorted_desc ?sel)
      = mset [e \<leftarrow> loaded.
           (\<forall>p. filter_arg = Some p \<and> p \<noteq> [] \<longrightarrow> (\<exists>q\<in>set (ep_personas e). lower q = lower p))
           \<and> (\<forall>d. since_arg = Some d \<longrightarrow> d \<le> ep_date e)]"
    by (simp only: mset_sorted_desc list_select_eq)
  ultimately show ?thesis by blast
qed

theorem C6_list_filters_witness:
  "load_registry sample_loads Read_ok (store_of [example_a, example_b])
     = (Inr [example_a, example_b], store_of [example_a, example_b])
   \<and> (\<exists>rows.
         cmd_epistle_list ascii_lower sample_loads Read_ok (Some ''ALICE'') (Some ''2023-01-01'')
             (store_of [example_a, example_b])
           = (Inr (), (store_of [example_a, example_b])
                \<lparr>stdout := stdout (store_of [example_a, example_b])
                     @ Out_count (length rows) # map Out_row rows\<rparr>)
         \<and> mset rows
             = mset [e \<leftarrow> [example_a, example_b].
                 (\<forall>p. Some ''ALICE'' = Some p \<and> p \<noteq> [] \<longrightarrow>
                    (\<exists>q\<in>set (ep_personas e). ascii_lower q = ascii_lower p))
                 \<and> (\<forall>d. Some ''2023-01-01'' = Some d \<longrightarrow> d \<le> ep_date e)])"
  using C6_list_filters [OF load_store_of [of "[example_a, example_b]"],
      where lower = ascii_lower and filter_arg = "Some ''ALICE''" and since_arg = "Some ''2023-01-01''"]
    load_store_of [of "[example_a, example_b]"]
  by blast

text \<open>
  C7 as stated does not hold. A record created with \<open>--context a.md --context a.md\<close>
  holds the path twice, Create does not de-duplicate; after two calls of AddContext with
  the single path \<open>a.md\<close> the registry still holds that record with the path twice.
\<close>

theorem C7_add_context_counterexample:
  "count_list (ep_context example_d) ''a.md'' = 2
   \<and> load_registry sample_loads Read_ok
        (snd (cmd_epistle_add_context ascii_lower sample_dumps sample_loads Read_ok Write_ok ''epistle-1700000009''
                (Some [''a.md''])
                (snd (cmd_epistle_add_context ascii_lower sample_dumps sample_loads Read_ok Write_ok
                        ''epistle-1700000009'' (Some [''a.md'']) (store_of [example_d])))))
       = (Inr [example_d],
          (store_of [example_d])
            \<lparr>stdout := [Out_epistle example_d, Out_context_added ''epistle-1700000009'',
                         Out_epistle example_d, Out_context_added ''epistle-1700000009'']\<rparr>)"
proof -
  let ?P = "\<lambda>e. ascii_lower (ep_id e) = ascii_lower ''epistle-1700000009''"
  have c: "count_list (ep_context example_d) ''a.md'' = 2"
    by (simp add: example_d_def)
  have m: "ascii_lower (ep_id example_d) = ascii_lower ''epistle-1700000009''"
    by code_simp
  have i: "ep_id example_d = ''epistle-1700000009''"
    by (simp add: example_d_def)
  have f: "find ?P [example_d] = Some example_d"
    by (simp add: m)
  have a: "with_added_context [''a.md''] example_d = example_d"
    by (simp add: with_added_context_def first_seen_def example_d_def)
  define w2 where "w2 = (store_of [example_d])
      \<lparr>stdout := [Out_epistle example_d, Out_context_added ''epistle-1700000009'']\<rparr>"
  have l2: "load_registry sample_loads Read_ok w2 = (Inr [example_d], w2)"
    by (rule load_registry_text [where dumps = sample_dumps])
       (simp_all add: sample_json_ok w2_def store_of_def)
  have s1: "cmd_epistle_add_context ascii_lower sample_dumps sample_loads Read_ok Write_ok ''epistle-1700000009''
      (Some [''a.md'']) (store_of [example_d]) = (Inr (), w2)"
    unfolding add_context_once [OF load_store_of f]
    by (simp add: a m i w2_def) (simp add: store_of_def)
  define w3 where "w3 = (store_of [example_d])
      \<lparr>stdout := [Out_epistle example_d, Out_context_added ''epistle-1700000009'',
                   Out_epistle example_d, Out_context_added ''epistle-1700000009'']\<rparr>"
  have s2: "cmd_epistle_add_context ascii_lower sample_dumps sample_loads Read_ok Write_ok ''epistle-1700000009''
      (Some [''a.md'']) w2 = (Inr (), w3)"
    unfolding add_context_once [OF l2 f]
    by (simp add: a m i w3_def) (simp add: w2_def store_of_def)
  have l3: "load_registry sample_loads Read_ok w3 = (Inr [example_d], w3)"
    by (rule load_registry_text [where dumps = sample_dumps])
       (simp_all add: sample_json_ok w3_def store_of_def)
  from c l3 show ?thesis
    by (simp add: s1 s2) (simp add: w3_def)
qed

text \<open>
  C7, amended. On a registry that loads without failure and holds a record with the given
  identifier, AddContext saves the registry with, in place of the first such record, that
  record with the paths of the argument list that its \<open>context\<close> did not hold appended in
  first-seen order, each once. A second call with the same paths changes nothing. With a
  single path \<open>p\<close> the resulting \<open>context\<close> holds \<open>p\<close> once if it held it at most once
  before, and as often as before otherwise.
\<close>

theorem C7_add_context_dedup:
  assumes "\<forall>e. json_ok dumps loads e"
    and "load_registry loads Read_ok w = (Inr epistles, w1)"
    and "find (\<lambda>e. lower (ep_id e) = lower ident) epistles = Some ep"
  shows "\<exists>w2 w3.
           cmd_epistle_add_context lower dumps loads Read_ok Write_ok ident (Some paths) w = (Inr (), w2)
           \<and> fst (load_registry loads Read_ok w2)
               = Inr (update_first (\<lambda>e. lower (ep_id e) = lower ident)
                        (with_added_context paths ep) epistles)
           \<and> cmd_epistle_add_context lower dumps loads Read_ok Write_ok ident (Some paths) w2 = (Inr (), w3)
           \<and> fst (load_registry loads Read_ok w3) = fst (load_registry loads Read_ok w2)
           \<and> count_list (ep_context (with_added_context [p] ep)) p = max 1 (count_list (ep_context ep) p)"
proof -
  let ?P = "\<lambda>e. lower (ep_id e) = lower ident"
  let ?ep = "with_added_context paths ep"
  let ?eps = "update_first ?P ?ep epistles"
  define w2 where "w2 = w1\<lparr>files := (files w1)(registry_path \<mapsto> registry_text dumps ?eps),
      stdout := stdout w1 @ [Out_epistle ?ep, Out_context_added (ep_id ep)]\<rparr>"
  define w3 where "w3 = w2\<lparr>files := (files w2)(registry_path \<mapsto> registry_text dumps ?eps),
      stdout := stdout w2 @ [Out_epistle ?ep, Out_context_added (ep_id ?ep)]\<rparr>"
  have s1: "cmd_epistle_add_context lower dumps loads Read_ok Write_ok ident (Some paths) w = (Inr (), w2)"
    unfolding w2_def by (rule add_context_once [OF assms(2,3)])
  from assms(1) have j: "\<forall>e\<in>set ?eps. json_ok dumps loads e" by simp
  have l2: "load_registry loads Read_ok w2 = (Inr ?eps, w2)"
    by (rule load_registry_text [OF j]) (simp add: w2_def)
  from find_holds [OF assms(3)] have "?P ep" .
  then have pe: "?P ?ep" by (simp add: with_added_context_def)
  from find_update_first [OF assms(3) pe] have f2: "find ?P ?eps = Some ?ep" .
  have s2: "cmd_epistle_add_context lower dumps loads Read_ok Write_ok ident (Some paths) w2 = (Inr (), w3)"
    unfolding w3_def add_context_once [OF l2 f2]
    by (simp add: with_added_context_idem update_first_idem [of ?P, OF pe])
  have l3: "load_registry loads Read_ok w3 = (Inr ?eps, w3)"
    by (rule load_registry_text [OF j]) (simp add: w3_def)
  have c: "count_list (ep_context (with_added_context [p] ep)) p = max 1 (count_list (ep_context ep) p)"
    using add_context_twice_count [of p "ep_context ep"] add_context_loop_idem [of "[p]" "ep_context ep"]
      add_context_loop_eq [of "[p]" "ep_context ep"]
    by (simp add: with_added_context_def)
  from s1 s2 l2 l3 c show ?thesis by simp
qed

theorem C7_add_context_dedup_witness:
  "(\<forall>e. json_ok sample_dumps sample_loads e)
   \<and> load_registry sample_loads Read_ok (store_of [example_a, example_b])
       = (Inr [example_a, example_b], store_of [example_a, example_b])
   \<and> find (\<lambda>e. ascii_lower (ep_id e) = ascii_lower ''EPISTLE-1700000005'') [example_a, example_b] = Some example_b
   \<and> (\<exists>w2 w3.
         cmd_epistle_add_context ascii_lower sample_dumps sample_loads Read_ok Write_ok ''EPISTLE-1700000005''
             (Some [''a.md'', ''notes.md'', ''a.md'']) (store_of [example_a, example_b]) = (Inr (), w2)
         \<and> fst (load_registry sample_loads Read_ok w2)
             = Inr (update_first (\<lambda>e. ascii_lower (ep_id e) = ascii_lower ''EPISTLE-1700000005'')
                      (with_added_context [''a.md'', ''notes.md'', ''a.md''] example_b)
                      [example_a, example_b])
         \<and> cmd_epistle_add_context ascii_lower sample_dumps sample_loads Read_ok Write_ok ''EPISTLE-1700000005''
             (Some [''a.md'', ''notes.md'', ''a.md'']) w2 = (Inr (), w3)
         \<and> fst (load_registry sample_loads Read_ok w3) = fst (load_registry sample_loads Read_ok w2)
         \<and> count_list (ep_context (with_added_context [''a.md''] example_b)) ''a.md''
             = max 1 (count_list (ep_context example_b) ''a.md''))
   \<and> ep_context (with_added_context [''a.md'', ''notes.md'', ''a.md''] example_b) = [''notes.md'', ''a.md'']"
proof -
  have j: "\<forall>e. json_ok sample_dumps sample_loads e"
    by (simp add: sample_json_ok)
  have a: "ascii_lower (ep_id example_a) \<noteq> ascii_lower ''EPISTLE-1700000005''"
    by code_simp
  have b: "ascii_lower (ep_id example_b) = ascii_lower ''EPISTLE-1700000005''"
    by code_simp
  have f: "find (\<lambda>e. ascii_lower (ep_id e) = ascii_lower ''EPISTLE-1700000005'') [example_a, example_b] = Some example_b"
    by (simp add: a b)
  have c: "ep_context (with_added_context [''a.md'', ''notes.md'', ''a.md''] example_b) = [''notes.md'', ''a.md'']"
    by (simp add: with_added_context_def first_seen_def example_b_def)
  from C7_add_context_dedup [OF j load_store_of f,
      where paths = "[''a.md'', ''notes.md'', ''a.md'']" and p = "''a.md''"]
    j load_store_of [of "[example_a, example_b]"] f c
  show ?thesis by blast
qed

text \<open>
  C1 as stated does not hold. On an empty store, Create for Alice and Bob with a satellite
  document that cannot be opened for writing prints the error, then saves a registry
  holding the new record, and reports the record as created: the registry entry exists
  and the document does not.
\<close>

theorem C1_create_counterexample:
  "cmd_epistle_new ascii_lower sample_dumps sample_loads doc_fails example_clock example_args empty_store
     = Some (Inr (),
         \<lparr>files = [registry_path \<mapsto> registry_text sample_dumps [example_a]],
          stderr = [Error_writing_epistle],
          stdout = [Out_epistle example_a, Out_created ''alice_bob_20231114T221320.md'']\<rparr>)
   \<and> ep_file example_a = ''alice_bob_20231114T221320.md''
   \<and> [registry_path \<mapsto> registry_text sample_dumps [example_a]] ''alice_bob_20231114T221320.md'' = None
   \<and> load_registry sample_loads Read_ok empty_store = (Inr [], empty_store)
   \<and> load_registry sample_loads Read_ok (store_of [example_a]) = (Inr [example_a], store_of [example_a])
   \<and> files (store_of [example_a]) = [registry_path \<mapsto> registry_text sample_dumps [example_a]]"
proof -
  have "ep_file example_a = ''alice_bob_20231114T221320.md''"
    by (simp add: example_a_def)
  moreover have "[registry_path \<mapsto> registry_text sample_dumps [example_a]] ''alice_bob_20231114T221320.md'' = None"
    by (simp add: registry_path_def)
  moreover have "load_registry sample_loads Read_ok empty_store = (Inr [], empty_store)"
    by (simp add: load_registry_def empty_store_def)
  moreover have "files (store_of [example_a]) = [registry_path \<mapsto> registry_text sample_dumps [example_a]]"
    by (simp add: store_of_def)
  ultimately show ?thesis
    using create_doc_fails_first load_store_of [of "[example_a]"] by simp
qed

text \<open>
  C1, amended. Create attempts the satellite document before it loads and saves the
  registry, and a failure to write the document is only printed on standard error. When
  the registry load and save succeed, Create returns normally and the registry afterwards
  holds the previous records followed by the new entry, whether or not the document was
  created: the document exists when it could be opened for writing, and is absent, with
  the entry recorded all the same, when it could not.
\<close>

theorem C1_create_records_entry:
  assumes "\<forall>e. json_ok dumps loads e"
    and "finite (dom (files w))"
    and "2 \<le> length (personas_of args)"
    and "reg_read ft = Read_ok"
    and "reg_write ft = Write_ok"
  shows "\<exists>filename w' old.
           cmd_epistle_new lower dumps loads ft ck args w = Some (Inr (), w')
           \<and> files w filename = None
           \<and> fst (load_registry loads Read_ok w) = Inr old
           \<and> fst (load_registry loads Read_ok w') = Inr (old @ [new_epistle ck args filename])
           \<and> (doc_write ft = Write_open_fails \<longrightarrow>
                files w' filename = None \<and> Error_writing_epistle \<in> set (stderr w'))
           \<and> (doc_write ft \<noteq> Write_open_fails \<longrightarrow> files w' filename \<noteq> None)"
proof -
  from unique_filename_fresh [OF assms(2), of "persona_slug_of lower (personas_of args)" "stamp ck"]
  obtain fn where uf: "unique_filename (\<lambda>f. f \<in> dom (files w)) (persona_slug_of lower (personas_of args)) (stamp ck) = Some fn"
    and fresh: "files w fn = None" and ne: "fn \<noteq> registry_path" by blast
  let ?e = "new_epistle ck args fn"
  let ?old = "fst (load_outcome loads Read_ok (files w registry_path))"
  from create_run [OF assms(3) uf ne, of ft loads dumps] assms(4) obtain w1 w2 w3
    where w1: "write_epistle_template (doc_write ft) fn ?e w = (Inr (), w1)"
      and l: "load_registry loads Read_ok w1 = (Inr ?old, w2)"
      and f2: "files w2 = files w1"
      and w3: "save_registry dumps (reg_write ft) (?old @ [?e]) w2 = (Inr (), w3)"
      and run: "cmd_epistle_new lower dumps loads ft ck args w
          = Some (Inr (), w3\<lparr>stdout := stdout w3 @ [Out_epistle ?e, Out_created fn]\<rparr>)"
    by auto
  let ?w = "w3\<lparr>stdout := stdout w3 @ [Out_epistle ?e, Out_created fn]\<rparr>"
  from assms(3) have p: "2 \<le> length (ep_personas ?e)" by (simp add: new_epistle_def)
  from write_template_run [OF p ne, of "doc_write ft" w] w1
  have fails: "doc_write ft = Write_open_fails \<longrightarrow> files w1 = files w \<and> stderr w1 = stderr w @ [Error_writing_epistle]"
    and made: "doc_write ft \<noteq> Write_open_fails \<longrightarrow> dom (files w1) = insert fn (dom (files w))"
    by auto
  from l have e2: "set (stderr w1) \<subseteq> set (stderr w2)"
    by (auto simp: load_registry_outcome split: if_splits)
  from save_registry_run [of dumps "reg_write ft" "?old @ [?e]" w2] w3 assms(5)
  have e3: "w3 = w2\<lparr>files := (files w2)(registry_path \<mapsto> registry_text dumps (?old @ [?e]))\<rparr>" by auto
  from assms(1) have "\<forall>x\<in>set (?old @ [?e]). json_ok dumps loads x" by simp
  from load_outcome_text [OF this]
  have after: "fst (load_registry loads Read_ok ?w) = Inr (?old @ [?e])"
    by (simp add: load_registry_outcome e3)
  have before: "fst (load_registry loads Read_ok w) = Inr ?old"
    by (simp add: load_registry_outcome)
  have at: "files ?w fn = files w1 fn"
    using ne by (simp add: e3 f2)
  have st: "stderr ?w = stderr w2"
    by (simp add: e3)
  from fails fresh e2 have a: "doc_write ft = Write_open_fails \<longrightarrow>
      files ?w fn = None \<and> Error_writing_epistle \<in> set (stderr ?w)"
    unfolding at st by auto
  from made have b: "doc_write ft \<noteq> Write_open_fails \<longrightarrow> files ?w fn \<noteq> None"
    unfolding at by auto
  from run fresh before after a b show ?thesis by blast
qed

theorem C1_create_records_entry_witness:
  "(\<forall>e. json_ok sample_dumps sample_loads e)
   \<and> finite (dom (files empty_store))
   \<and> 2 \<le> length (personas_of example_args)
   \<and> reg_read doc_fails = Read_ok \<and> reg_write doc_fails = Write_ok
   \<and> doc_write doc_fails = Write_open_fails
   \<and> (\<exists>filename w' old.
         cmd_epistle_new ascii_lower sample_dumps sample_loads doc_fails example_clock example_args empty_store
           = Some (Inr (), w')
         \<and> files empty_store filename = None
         \<and> fst (load_registry sample_loads Read_ok empty_store) = Inr old
         \<and> fst (load_registry sample_loads Read_ok w')
             = Inr (old @ [new_epistle example_clock example_args filename])
         \<and> files w' filename = None \<and> Error_writing_epistle \<in> set (stderr w'))"
proof -
  have j: "\<forall>e. json_ok sample_dumps sample_loads e"
    by (simp add: sample_json_ok)
  have f: "finite (dom (files empty_store))"
    by (simp add: empty_store_def)
  have r: "reg_read doc_fails = Read_ok" and s: "reg_write doc_fails = Write_ok"
    and d: "doc_write doc_fails = Write_open_fails"
    by (simp_all add: doc_fails_def)
  from C1_create_records_entry [OF j f example_two r s,
      where ck = example_clock and lower = ascii_lower] d j f example_two r s
  show ?thesis by auto
qed

text \<open>
  C5 as stated does not hold. Two Create invocations with the same personas in the same
  second, each with a satellite document that cannot be opened for writing: the document
  never comes to exist, so the second invocation chooses the same name, and the registry
  holds two records with equal \<open>file\<close>.
\<close>

theorem C5_duplicate_file_counterexample:
  "map_option (registry_files sample_loads)
     (create_calls ascii_lower sample_dumps sample_loads
        [(doc_fails, example_clock, example_args), (doc_fails, example_clock, example_args)]
        empty_store)
     = Some [''alice_bob_20231114T221320.md'', ''alice_bob_20231114T221320.md'']"
proof -
  define w1 where "w1 = \<lparr>files = [registry_path \<mapsto> registry_text sample_dumps [example_a]],
      stderr = [Error_writing_epistle],
      stdout = [Out_epistle example_a, Out_created ''alice_bob_20231114T221320.md'']\<rparr>"
  have s1: "cmd_epistle_new ascii_lower sample_dumps sample_loads doc_fails example_clock example_args empty_store
      = Some (Inr (), w1)"
    unfolding w1_def by (rule create_doc_fails_first)
  have "\<not> (''alice_bob'' @ ''_'' @ ''20231114T221320'' @ ''.md'') \<in> dom (files w1)"
    by (simp add: w1_def registry_path_def)
  from unique_filename_free [of "\<lambda>f. f \<in> dom (files w1)", OF this]
  have uf: "unique_filename (\<lambda>f. f \<in> dom (files w1)) (persona_slug_of ascii_lower (personas_of example_args))
      (stamp example_clock) = Some ''alice_bob_20231114T221320.md''"
    by (simp add: example_personas example_slug example_stamp)
  have "load_outcome sample_loads Read_ok (Some (registry_text sample_dumps [example_a])) = ([example_a], False)"
    by (rule load_outcome_text) (simp add: sample_json_ok)
  then have o: "load_outcome sample_loads Read_ok (files w1 registry_path) = ([example_a], False)"
    by (simp add: w1_def)
  define w2 where "w2 = w1\<lparr>files := (files w1)(registry_path \<mapsto>
        registry_text sample_dumps [example_a, example_a]),
      stderr := stderr w1 @ [Error_writing_epistle],
      stdout := stdout w1 @ [Out_epistle example_a, Out_created ''alice_bob_20231114T221320.md'']\<rparr>"
  have s2: "cmd_epistle_new ascii_lower sample_dumps sample_loads doc_fails example_clock example_args w1
      = Some (Inr (), w2)"
    unfolding create_doc_fails [OF example_two uf o] example_new w2_def by simp
  have "load_outcome sample_loads Read_ok (Some (registry_text sample_dumps [example_a, example_a]))
      = ([example_a, example_a], False)"
    by (rule load_outcome_text) (simp add: sample_json_ok)
  then have "registry_files sample_loads w2 = [ep_file example_a, ep_file example_a]"
    by (simp add: registry_files_outcome w2_def)
  then have r: "registry_files sample_loads w2
      = [''alice_bob_20231114T221320.md'', ''alice_bob_20231114T221320.md'']"
    by (simp add: example_a_def)
  show ?thesis by (simp add: s1 s2 r)
qed

text \<open>
  C5, amended. Starting from a consistent store (finite directory, registry \<open>file\<close> values
  pairwise distinct and present in the directory; the empty store is one), every sequence
  of Create invocations whose satellite documents can be opened for writing and whose
  registry saves either succeed or fail on opening runs to its end and leaves the \<open>file\<close>
  values of the registry records pairwise distinct, also when invocations share personas
  and timestamp; without faults and with at least two personas each, every invocation adds
  one record.
\<close>

theorem C5_created_files_distinct:
  assumes "\<forall>e. json_ok dumps loads e"
    and "store_consistent loads w"
    and "\<forall>c\<in>set calls. doc_write (fst c) \<noteq> Write_open_fails
           \<and> (reg_write (fst c) = Write_ok \<or> reg_write (fst c) = Write_open_fails)"
  shows "\<exists>w'. create_calls lower dumps loads calls w = Some w'
           \<and> distinct (registry_files loads w')
           \<and> set (registry_files loads w') \<subseteq> dom (files w')
           \<and> ((\<forall>c\<in>set calls. reg_read (fst c) = Read_ok \<and> reg_write (fst c) = Write_ok
                  \<and> 2 \<le> length (personas_of (snd (snd c)))) \<longrightarrow>
                length (registry_files loads w') = length (registry_files loads w) + length calls)"
  using create_calls_consistent [OF assms, where lower = lower] by (auto simp: store_consistent_def)

theorem C5_created_files_distinct_witness:
  "(\<forall>e. json_ok sample_dumps sample_loads e)
   \<and> store_consistent sample_loads empty_store
   \<and> doc_write no_faults \<noteq> Write_open_fails
   \<and> reg_read no_faults = Read_ok \<and> reg_write no_faults = Write_ok
   \<and> 2 \<le> length (personas_of example_args)
   \<and> (\<exists>w'. create_calls ascii_lower sample_dumps sample_loads
               [(no_faults, example_clock, example_args), (no_faults, example_clock, example_args)]
               empty_store = Some w'
          \<and> distinct (registry_files sample_loads w')
          \<and> length (registry_files sample_loads w') = length (registry_files sample_loads empty_store) + 2)
   \<and> map_option (registry_files sample_loads)
        (create_calls ascii_lower sample_dumps sample_loads
           [(no_faults, example_clock, example_args), (no_faults, example_clock, example_args)]
           empty_store)
       = Some [''alice_bob_20231114T221320.md'', ''alice_bob_20231114T221320_1.md'']"
proof -
  have j: "\<forall>e. json_ok sample_dumps sample_loads e"
    by (simp add: sample_json_ok)
  have c: "store_consistent sample_loads empty_store"
    by (simp add: store_consistent_def registry_files_outcome load_outcome_def empty_store_def)
  have h: "\<forall>c\<in>set [(no_faults, example_clock, example_args), (no_faults, example_clock, example_args)].
         doc_write (fst c) \<noteq> Write_open_fails
         \<and> (reg_write (fst c) = Write_ok \<or> reg_write (fst c) = Write_open_fails)
         \<and> reg_read (fst c) = Read_ok \<and> reg_write (fst c) = Write_ok
         \<and> 2 \<le> length (personas_of (snd (snd c)))"
    by (simp add: no_faults_def example_two)
  then have h': "\<forall>c\<in>set [(no_faults, example_clock, example_args), (no_faults, example_clock, example_args)].
         doc_write (fst c) \<noteq> Write_open_fails
         \<and> (reg_write (fst c) = Write_ok \<or> reg_write (fst c) = Write_open_fails)"
    by simp
  from C5_created_files_distinct [OF j c h', where lower = ascii_lower] h
  have "\<exists>w'. create_calls ascii_lower sample_dumps sample_loads
               [(no_faults, example_clock, example_args), (no_faults, example_clock, example_args)]
               empty_store = Some w'
          \<and> distinct (registry_files sample_loads w')
          \<and> length (registry_files sample_loads w') = length (registry_files sample_loads empty_store) + 2"
    by auto
  moreover have "doc_write no_faults \<noteq> Write_open_fails" "reg_read no_faults = Read_ok"
    "reg_write no_faults = Write_ok"
    by (simp_all add: no_faults_def)
  ultimately show ?thesis using j c example_two example_twice by blast
qed

end
